theory Spec2Isabelle
  imports Main "HOL-Library.Multiset" "HOL-Library.Char_ord" "HOL-Library.List_Lexorder"
    "HOL-Library.Product_Lexorder"
begin

section \<open>Python values used by the scheduler\<close>

text \<open>
  The scheduler (\<^verbatim>\<open>src/scheduler.py\<close>, class \<^verbatim>\<open>ScheduleGenerator\<close>) works on
  Python integers (unbounded, modelled as \<^typ>\<open>int\<close>), strings and dictionaries.
  Its f-strings print integers in decimal; \<^verbatim>\<open>{n:02d}\<close> pads with a zero to
  width two, the sign counting towards the width.
\<close>

definition digit_char :: "nat \<Rightarrow> char" where
  "digit_char d = ''0123456789'' ! d"

fun str_nat :: "nat \<Rightarrow> string" where
  "str_nat n = (if n < 10 then [digit_char n] else str_nat (n div 10) @ [digit_char (n mod 10)])"

declare str_nat.simps [simp del]

definition str_int :: "int \<Rightarrow> string" where
  "str_int i = (if i < 0 then CHR ''-'' # str_nat (nat (- i)) else str_nat (nat i))"

definition fmt_02d :: "int \<Rightarrow> string" where
  "fmt_02d i = (let s = str_int i in if length s < 2 then CHR ''0'' # s else s)"

section \<open>Time grid\<close>

text \<open>
  \<^verbatim>\<open>datetime.time\<close> objects carry an hour in 0..23 and a minute in 0..59; the
  constructor arguments of \<^verbatim>\<open>ScheduleGenerator\<close> that the grid reads are
  collected in \<open>options\<close>.
\<close>

record time_of_day =
  hour :: int
  minute :: int

record options =
  start_time :: time_of_day
  end_time :: time_of_day
  period_length :: int
  break_length :: int
  lunch_period :: string
  lunch_duration :: int

definition valid_time :: "time_of_day \<Rightarrow> bool" where
  "valid_time t = (0 \<le> hour t \<and> hour t < 24 \<and> 0 \<le> minute t \<and> minute t < 60)"

definition minutes_of :: "time_of_day \<Rightarrow> int" where
  "minutes_of t = hour t * 60 + minute t"

text \<open>
  A slot is kept as the pair \<open>(current_minutes, period_end)\<close> the loop holds when
  it appends; \<open>slot_label\<close> is the string \<^verbatim>\<open>"HH:MM-HH:MM"\<close> the code appends
  for that pair.
\<close>

type_synonym slot = "int \<times> int"

definition slot_label :: "slot \<Rightarrow> string" where
  "slot_label sl =
     (let start_str = fmt_02d (fst sl div 60) @ '':'' @ fmt_02d (fst sl mod 60);
          end_str = fmt_02d (snd sl div 60) @ '':'' @ fmt_02d (snd sl mod 60)
      in start_str @ ''-'' @ end_str)"

definition is_lunch_period :: "options \<Rightarrow> int \<Rightarrow> bool" where
  "is_lunch_period opts period_counter =
     ((lunch_period opts = ''After period 3'' \<and> period_counter = 3) \<or>
      (lunch_period opts = ''After period 4'' \<and> period_counter = 4))"

text \<open>
  The \<^verbatim>\<open>while\<close> loop of \<^verbatim>\<open>_generate_time_slots\<close>. It need not terminate
  (a non-positive step never reaches the end of the day), so it is a partial
  function: \<open>None\<close> is "does not return".
\<close>

partial_function (option) slot_loop ::
  "options \<Rightarrow> int \<Rightarrow> int \<Rightarrow> int \<Rightarrow> slot list \<Rightarrow> slot list option" where
  "slot_loop opts end_minutes current_minutes period_counter time_slots =
     (if current_minutes + period_length opts \<le> end_minutes then
        slot_loop opts end_minutes
          (if is_lunch_period opts period_counter
           then (current_minutes + period_length opts) + lunch_duration opts
           else (current_minutes + period_length opts) + break_length opts)
          (period_counter + 1)
          (time_slots @ [(current_minutes, current_minutes + period_length opts)])
      else Some time_slots)"

declare slot_loop.simps [code]

definition generate_slots :: "options \<Rightarrow> slot list option" where
  "generate_slots opts =
     slot_loop opts (minutes_of (end_time opts)) (minutes_of (start_time opts)) 1 []"

definition generate_time_slots :: "options \<Rightarrow> string list option" where
  "generate_time_slots opts = map_option (map slot_label) (generate_slots opts)"

text \<open>
  The cursor advance after period \<open>k\<close>, and the shape of the slot list the loop
  builds from a cursor and a period counter; both are used to state the
  properties of the grid.
\<close>

definition gap :: "options \<Rightarrow> int \<Rightarrow> int" where
  "gap opts period_counter =
     (if is_lunch_period opts period_counter then lunch_duration opts else break_length opts)"

fun chain :: "options \<Rightarrow> int \<Rightarrow> int \<Rightarrow> slot list \<Rightarrow> bool" where
  "chain opts cur k [] = True"
| "chain opts cur k (sl # rest) =
     (sl = (cur, cur + period_length opts) \<and>
      chain opts (cur + period_length opts + gap opts k) (k + 1) rest)"

definition loop_post ::
  "options \<Rightarrow> int \<Rightarrow> int \<Rightarrow> int \<Rightarrow> slot list \<Rightarrow> slot list \<Rightarrow> bool" where
  "loop_post opts e cur k acc res =
     (\<exists>ys. res = acc @ ys \<and> chain opts cur k ys \<and> (\<forall>sl\<in>set ys. snd sl \<le> e) \<and>
           (ys = [] \<longleftrightarrow> e < cur + period_length opts))"

text \<open>
  The input domain of the grid builder as the specification gives it: start of day
  before end of day, a positive period length, a non-negative break, and a positive
  lunch duration when a lunch rule is enabled.
\<close>

definition valid_grid :: "options \<Rightarrow> bool" where
  "valid_grid opts =
     (valid_time (start_time opts) \<and> valid_time (end_time opts) \<and>
      minutes_of (start_time opts) < minutes_of (end_time opts) \<and>
      0 < period_length opts \<and> 0 \<le> break_length opts \<and>
      (lunch_period opts \<noteq> ''No lunch'' \<longrightarrow> 0 < lunch_duration opts))"

section \<open>Entities and ledgers\<close>

text \<open>
  The entity dictionaries, with the keys the scheduler reads. A frequency is a
  weekly session count (the course form offers 1 to 5), consumed by
  \<^verbatim>\<open>range(required_sessions)\<close>.
\<close>

record teacher_entry =
  teacher_name :: string

record room_entry =
  room_name :: string
  capacity :: int

record class_entry =
  class_name :: string
  class_size :: int

record course_entry =
  course_name :: string
  course_teacher :: string
  course_class :: string
  frequency :: nat

record assignment =
  course :: string
  teacher :: string
  room :: string
  cls :: string
  day :: string
  time :: string

record conflict =
  ctype :: string
  cday :: string
  ctime :: string
  description :: string

text \<open>
  A dictionary built by a comprehension keeps each key once, in the order of first
  insertion.
\<close>

primrec dict_keys :: "'a list \<Rightarrow> 'a list" where
  "dict_keys [] = []"
| "dict_keys (x # xs) = x # filter (\<lambda>y. y \<noteq> x) (dict_keys xs)"

datatype error = KeyError string

definition days :: "string list" where
  "days = [''Monday'', ''Tuesday'', ''Wednesday'', ''Thursday'', ''Friday'']"

text \<open>
  A ledger is the nested dictionary \<^verbatim>\<open>{name: {day: {time: None}}}\<close>. Its outer
  keys are the names, in insertion order; under every name the keys are the five
  days, which nothing ever changes; under a name and a day the keys are
  \<open>slot_keys\<close>, at first the time slots of the grid. \<open>cells\<close> is the value
  stored under a name, a day and a slot key (\<open>None\<close> for Python's \<^verbatim>\<open>None\<close>).

  Reading \<^verbatim>\<open>ledger[name][day][time]\<close> raises \<^verbatim>\<open>KeyError\<close> at the first key
  that is missing. Storing \<^verbatim>\<open>ledger[name][day][time] = a\<close> raises it for a missing
  name or day, and adds the slot key when that is the one missing.
\<close>

record ledger =
  keys :: "string list"
  slot_keys :: "string \<Rightarrow> string \<Rightarrow> string set"
  cells :: "string \<Rightarrow> string \<Rightarrow> string \<Rightarrow> assignment option"

definition new_ledger :: "string list \<Rightarrow> string list \<Rightarrow> ledger" where
  "new_ledger names slots =
     \<lparr>keys = dict_keys names, slot_keys = (\<lambda>n d. set slots), cells = (\<lambda>n d t. None)\<rparr>"

definition lookup_cell :: "ledger \<Rightarrow> string \<Rightarrow> string \<Rightarrow> string \<Rightarrow> error + assignment option" where
  "lookup_cell l n d t =
     (if n \<notin> set (keys l) then Inl (KeyError n)
      else if d \<notin> set days then Inl (KeyError d)
      else if t \<notin> slot_keys l n d then Inl (KeyError t)
      else Inr (cells l n d t))"

definition set_cell :: "ledger \<Rightarrow> string \<Rightarrow> string \<Rightarrow> string \<Rightarrow> assignment \<Rightarrow> ledger" where
  "set_cell l n d t a =
     l\<lparr>slot_keys := (\<lambda>n' d'. if n' = n \<and> d' = d then insert t (slot_keys l n' d')
                             else slot_keys l n' d'),
       cells := (\<lambda>n' d' t'. if n' = n \<and> d' = d \<and> t' = t then Some a else cells l n' d' t')\<rparr>"

definition store_cell :: "ledger \<Rightarrow> string \<Rightarrow> string \<Rightarrow> string \<Rightarrow> assignment \<Rightarrow> error + ledger" where
  "store_cell l n d t a =
     (if n \<notin> set (keys l) then Inl (KeyError n)
      else if d \<notin> set days then Inl (KeyError d)
      else Inr (set_cell l n d t a))"

text \<open>
  The fields of \<^verbatim>\<open>self\<close> that a run only reads (\<open>generator\<close>), and what a run
  changes (\<open>state\<close>): the three ledgers, the local \<^verbatim>\<open>course_sessions\<close>
  dictionary (in insertion order), the local \<^verbatim>\<open>conflicts\<close> list, and the state
  of the \<^verbatim>\<open>random\<close> module, taken as the sequence of draws still to come.
\<close>

record generator =
  teachers :: "teacher_entry list"
  rooms :: "room_entry list"
  classes :: "class_entry list"
  courses :: "course_entry list"
  time_slots :: "string list"

record state =
  class_schedule :: ledger
  teacher_schedule :: ledger
  room_schedule :: ledger
  course_sessions :: "((string \<times> string) \<times> int) list"
  conflicts :: "conflict list"
  rng :: "nat list"

definition course_key :: "course_entry \<Rightarrow> string \<times> string" where
  "course_key c = (course_name c, course_class c)"

section \<open>The random module\<close>

text \<open>
  \<^verbatim>\<open>random.shuffle(x)\<close> is the Fisher-Yates loop
  \<^verbatim>\<open>for i in reversed(range(1, len(x))): j = randbelow(i + 1); x[i], x[j] = x[j], x[i]\<close>.
  A draw \<open>randbelow n\<close> takes the next number of the sequence modulo \<open>n\<close>; every
  theorem below holds for every sequence.
\<close>

fun randbelow :: "nat \<Rightarrow> nat list \<Rightarrow> nat \<times> nat list" where
  "randbelow n [] = (0, [])"
| "randbelow n (r # g) = (r mod n, g)"

fun shuffle_from :: "nat \<Rightarrow> 'a list \<Rightarrow> nat list \<Rightarrow> 'a list \<times> nat list" where
  "shuffle_from 0 x g = (x, g)"
| "shuffle_from (Suc i) x g =
     (case randbelow (Suc i + 1) g of
        (j, g') \<Rightarrow> shuffle_from i (x[Suc i := x ! j, j := x ! Suc i]) g')"

definition shuffle :: "'a list \<Rightarrow> nat list \<Rightarrow> 'a list \<times> nat list" where
  "shuffle x g = shuffle_from (length x - 1) x g"

section \<open>The scheduler\<close>

text \<open>
  \<^verbatim>\<open>__init__\<close>: the three ledgers are created empty, one outer key per class,
  teacher and room name, each with the five days and the time slots of the grid.
\<close>

definition initial_state :: "generator \<Rightarrow> nat list \<Rightarrow> state" where
  "initial_state gen g =
     \<lparr>class_schedule = new_ledger (map class_name (classes gen)) (time_slots gen),
      teacher_schedule = new_ledger (map teacher_name (teachers gen)) (time_slots gen),
      room_schedule = new_ledger (map room_name (rooms gen)) (time_slots gen),
      course_sessions = [],
      conflicts = [],
      rng = g\<rparr>"

text \<open>
  \<^verbatim>\<open>_is_slot_available\<close>. The three ledgers are read in the order class,
  teacher, room; a read that misses a key raises \<^verbatim>\<open>KeyError\<close>, and the first
  occupied cell returns \<^verbatim>\<open>False\<close> before the later ledgers are touched.
\<close>

definition is_slot_available ::
  "state \<Rightarrow> string \<Rightarrow> string \<Rightarrow> string \<Rightarrow> string \<Rightarrow> string \<Rightarrow> error + bool" where
  "is_slot_available s cname tname rname d t =
     (case lookup_cell (class_schedule s) cname d t of
        Inl e \<Rightarrow> Inl e
      | Inr (Some a) \<Rightarrow> Inr False
      | Inr None \<Rightarrow>
          (case lookup_cell (teacher_schedule s) tname d t of
             Inl e \<Rightarrow> Inl e
           | Inr (Some a) \<Rightarrow> Inr False
           | Inr None \<Rightarrow>
               (case lookup_cell (room_schedule s) rname d t of
                  Inl e \<Rightarrow> Inl e
                | Inr (Some a) \<Rightarrow> Inr False
                | Inr None \<Rightarrow> Inr True)))"

text \<open>
  \<^verbatim>\<open>_assign_time_slot\<close>: builds the assignment and stores it in the class, the
  teacher and the room ledger, in that order and whatever the cells hold. A store
  that misses a name or a day raises \<^verbatim>\<open>KeyError\<close>; the exception leaves the
  method, and the run, at once.
\<close>

definition assign_time_slot ::
  "state \<Rightarrow> course_entry \<Rightarrow> string \<Rightarrow> string \<Rightarrow> string \<Rightarrow> string \<Rightarrow> string \<Rightarrow> error + state" where
  "assign_time_slot s c cname tname rname d t =
     (let a = \<lparr>course = course_name c, teacher = tname, room = rname, cls = cname,
                day = d, time = t\<rparr>
      in case store_cell (class_schedule s) cname d t a of
           Inl e \<Rightarrow> Inl e
         | Inr class_l \<Rightarrow>
             (case store_cell (teacher_schedule s) tname d t a of
                Inl e \<Rightarrow> Inl e
              | Inr teacher_l \<Rightarrow>
                  (case store_cell (room_schedule s) rname d t a of
                     Inl e \<Rightarrow> Inl e
                   | Inr room_l \<Rightarrow>
                       Inr (s\<lparr>class_schedule := class_l, teacher_schedule := teacher_l,
                              room_schedule := room_l\<rparr>))))"

text \<open>
  \<^verbatim>\<open>_find_available_room\<close>: the rooms of sufficient capacity are shuffled and the
  first whose cell is free is returned (\<open>None\<close> when there is none); each room's
  cell is read in turn, and a read that misses the day or the slot raises
  \<^verbatim>\<open>KeyError\<close>. The shuffle consumes draws whether or not a room is found.
\<close>

fun first_free_room :: "ledger \<Rightarrow> string \<Rightarrow> string \<Rightarrow> room_entry list \<Rightarrow> error + string option" where
  "first_free_room l d t [] = Inr None"
| "first_free_room l d t (r # rs) =
     (case lookup_cell l (room_name r) d t of
        Inl e \<Rightarrow> Inl e
      | Inr None \<Rightarrow> Inr (Some (room_name r))
      | Inr (Some a) \<Rightarrow> first_free_room l d t rs)"

definition find_available_room ::
  "generator \<Rightarrow> state \<Rightarrow> int \<Rightarrow> string \<Rightarrow> string \<Rightarrow> error + (string option \<times> nat list)" where
  "find_available_room gen s csize d t =
     (case shuffle (filter (\<lambda>r. csize \<le> capacity r) (rooms gen)) (rng s) of
        (suitable_rooms, g') \<Rightarrow>
          (case first_free_room (room_schedule s) d t suitable_rooms of
             Inl e \<Rightarrow> Inl e
           | Inr room_opt \<Rightarrow> Inr (room_opt, g')))"

primrec get_class_size :: "class_entry list \<Rightarrow> string \<Rightarrow> int" where
  "get_class_size [] cname = 0"
| "get_class_size (c # cs) cname =
     (if class_name c = cname then class_size c else get_class_size cs cname)"

definition bump_sessions ::
  "(string \<times> string) \<Rightarrow> ((string \<times> string) \<times> int) list \<Rightarrow> ((string \<times> string) \<times> int) list" where
  "bump_sessions k m = map (\<lambda>(k', v). if k' = k then (k', v + 1) else (k', v)) m"

definition unscheduled_conflict :: "course_entry \<Rightarrow> conflict" where
  "unscheduled_conflict c =
     \<lparr>ctype = ''Unscheduled Session'', cday = ''N/A'', ctime = ''N/A'',
      description = ''Could not schedule a session for '' @ course_name c @ '' (Class: '' @
        course_class c @ '', Teacher: '' @ course_teacher c @ '')''\<rparr>"

text \<open>
  The loop over the shuffled time slots of one day. The result is
  \<open>(session_scheduled, assigned_days, state)\<close>; a room name that is \<open>None\<close>
  or the empty string is falsy, and then \<^verbatim>\<open>_is_slot_available\<close> is not called.
\<close>

fun try_time_slots ::
  "generator \<Rightarrow> course_entry \<Rightarrow> int \<Rightarrow> string \<Rightarrow> string list \<Rightarrow> string set \<Rightarrow> state \<Rightarrow>
     error + (bool \<times> string set \<times> state)" where
  "try_time_slots gen c csize d [] assigned_days s = Inr (False, assigned_days, s)"
| "try_time_slots gen c csize d (t # ts) assigned_days s =
     (case find_available_room gen s csize d t of
        Inl e \<Rightarrow> Inl e
      | Inr (room_opt, g') \<Rightarrow>
          let s1 = s\<lparr>rng := g'\<rparr> in
          (case room_opt of
             None \<Rightarrow> try_time_slots gen c csize d ts assigned_days s1
           | Some rname \<Rightarrow>
               if rname = [] then try_time_slots gen c csize d ts assigned_days s1
               else
                 (case is_slot_available s1 (course_class c) (course_teacher c) rname d t of
                    Inl e \<Rightarrow> Inl e
                  | Inr False \<Rightarrow> try_time_slots gen c csize d ts assigned_days s1
                  | Inr True \<Rightarrow>
                      (case assign_time_slot s1 c (course_class c) (course_teacher c) rname d t of
                         Inl e \<Rightarrow> Inl e
                       | Inr s2 \<Rightarrow>
                           Inr (True, insert d assigned_days,
                                s2\<lparr>course_sessions :=
                                     bump_sessions (course_key c) (course_sessions s2)\<rparr>)))))"

text \<open>
  One candidate day that is not skipped: the time slots are shuffled and tried.
\<close>

definition search_day ::
  "generator \<Rightarrow> course_entry \<Rightarrow> int \<Rightarrow> string \<Rightarrow> string set \<Rightarrow> state \<Rightarrow>
     error + (bool \<times> string set \<times> state)" where
  "search_day gen c csize d assigned_days s =
     (case shuffle (time_slots gen) (rng s) of
        (slots, g') \<Rightarrow> try_time_slots gen c csize d slots assigned_days (s\<lparr>rng := g'\<rparr>))"

text \<open>
  The loop over the shuffled days: a day is skipped when it is in
  \<open>assigned_days\<close> and \<open>len(assigned_days) < len(self.days)\<close>, both read at that
  day; the loop stops at the first day on which the session is scheduled.
\<close>

fun try_days ::
  "generator \<Rightarrow> course_entry \<Rightarrow> int \<Rightarrow> string list \<Rightarrow> string set \<Rightarrow> state \<Rightarrow>
     error + (bool \<times> string set \<times> state)" where
  "try_days gen c csize [] assigned_days s = Inr (False, assigned_days, s)"
| "try_days gen c csize (d # ds) assigned_days s =
     (if d \<in> assigned_days \<and> card assigned_days < length days
      then try_days gen c csize ds assigned_days s
      else
        (case search_day gen c csize d assigned_days s of
           Inl e \<Rightarrow> Inl e
         | Inr (session_scheduled, assigned_days', s') \<Rightarrow>
             if session_scheduled then Inr (True, assigned_days', s')
             else try_days gen c csize ds assigned_days' s'))"

text \<open>
  \<^verbatim>\<open>for _ in range(required_sessions)\<close>: each session shuffles the days, searches,
  and records an unscheduled session when the search fails.
\<close>

fun schedule_sessions ::
  "generator \<Rightarrow> course_entry \<Rightarrow> int \<Rightarrow> nat \<Rightarrow> string set \<Rightarrow> state \<Rightarrow> error + state" where
  "schedule_sessions gen c csize 0 assigned_days s = Inr s"
| "schedule_sessions gen c csize (Suc n) assigned_days s =
     (case shuffle days (rng s) of
        (ds, g') \<Rightarrow>
          (case try_days gen c csize ds assigned_days (s\<lparr>rng := g'\<rparr>) of
             Inl e \<Rightarrow> Inl e
           | Inr (session_scheduled, assigned_days', s') \<Rightarrow>
               schedule_sessions gen c csize n assigned_days'
                 (if session_scheduled then s'
                  else s'\<lparr>conflicts := conflicts s' @ [unscheduled_conflict c]\<rparr>)))"

definition schedule_course :: "generator \<Rightarrow> course_entry \<Rightarrow> state \<Rightarrow> error + state" where
  "schedule_course gen c s =
     schedule_sessions gen c (get_class_size (classes gen) (course_class c)) (frequency c) {} s"

fun schedule_courses :: "generator \<Rightarrow> course_entry list \<Rightarrow> state \<Rightarrow> error + state" where
  "schedule_courses gen [] s = Inr s"
| "schedule_courses gen (c # cs) s =
     (case schedule_course gen c s of
        Inl e \<Rightarrow> Inl e
      | Inr s' \<Rightarrow> schedule_courses gen cs s')"

section \<open>Collecting the schedule and auditing\<close>

text \<open>
  The three scans at the end of \<^verbatim>\<open>generate_schedule\<close> index the class ledger with its
  own keys, the five weekdays and the slots of the grid. The constructor builds every
  day entry with these slots as keys and a store only adds keys, so these reads find
  their cell (lemma \<open>scan_reads_cell\<close>) and are written as reads of \<open>cells\<close>.
\<close>

definition collect_schedule :: "generator \<Rightarrow> state \<Rightarrow> assignment list" where
  "collect_schedule gen s =
     concat (map (\<lambda>cname.
       concat (map (\<lambda>d.
         concat (map (\<lambda>t.
           case cells (class_schedule s) cname d t of None \<Rightarrow> [] | Some a \<Rightarrow> [a])
           (time_slots gen)))
         days))
       (keys (class_schedule s)))"

fun join :: "string \<Rightarrow> string list \<Rightarrow> string" where
  "join sep [] = []"
| "join sep [x] = x"
| "join sep (x # y # ys) = x @ sep @ join sep (y # ys)"

text \<open>
  \<^verbatim>\<open>classes_at_time\<close> of the two scans: the classes whose cell at the day and time
  holds an assignment with the given value in the given field.
\<close>

definition classes_at_time ::
  "state \<Rightarrow> (assignment \<Rightarrow> string) \<Rightarrow> string \<Rightarrow> string \<Rightarrow> string \<Rightarrow> string list" where
  "classes_at_time s field name d t =
     filter (\<lambda>cname.
       case cells (class_schedule s) cname d t of None \<Rightarrow> False | Some a \<Rightarrow> field a = name)
       (keys (class_schedule s))"

definition teacher_conflicts :: "generator \<Rightarrow> state \<Rightarrow> conflict list" where
  "teacher_conflicts gen s =
     concat (map (\<lambda>tname.
       concat (map (\<lambda>d.
         concat (map (\<lambda>t.
           let cs = classes_at_time s teacher tname d t in
           if length cs > 1 then
             [\<lparr>ctype = ''Teacher Conflict'', cday = d, ctime = t,
               description = ''Teacher '' @ tname @ '' is scheduled for multiple classes: '' @
                 join '', '' cs\<rparr>]
           else [])
           (time_slots gen)))
         days))
       (keys (teacher_schedule s)))"

definition room_conflicts :: "generator \<Rightarrow> state \<Rightarrow> conflict list" where
  "room_conflicts gen s =
     concat (map (\<lambda>rname.
       concat (map (\<lambda>d.
         concat (map (\<lambda>t.
           let cs = classes_at_time s room rname d t in
           if length cs > 1 then
             [\<lparr>ctype = ''Room Conflict'', cday = d, ctime = t,
               description = ''Room '' @ rname @ '' is scheduled for multiple classes: '' @
                 join '', '' cs\<rparr>]
           else [])
           (time_slots gen)))
         days))
       (keys (room_schedule s)))"

text \<open>
  \<^verbatim>\<open>next((c['frequency'] for c in self.courses if ...), 0)\<close>: the frequency of the
  first course with the name and class, 0 when there is none.
\<close>

primrec required_frequency :: "course_entry list \<Rightarrow> string \<times> string \<Rightarrow> int" where
  "required_frequency [] k = 0"
| "required_frequency (c # cs) k =
     (if course_name c = fst k \<and> course_class c = snd k then int (frequency c)
      else required_frequency cs k)"

definition frequency_conflict :: "string \<times> string \<Rightarrow> int \<Rightarrow> int \<Rightarrow> conflict" where
  "frequency_conflict k assigned_sessions required_sessions =
     \<lparr>ctype = ''Frequency Not Met'', cday = ''N/A'', ctime = ''N/A'',
      description = ''Course '' @ fst k @ '' (Class: '' @ snd k @ '') was scheduled for '' @
        str_int assigned_sessions @ ''/'' @ str_int required_sessions @ '' required sessions''\<rparr>"

definition frequency_conflicts :: "generator \<Rightarrow> state \<Rightarrow> conflict list" where
  "frequency_conflicts gen s =
     concat (map (\<lambda>(k, assigned_sessions).
       let required_sessions = required_frequency (courses gen) k in
       if assigned_sessions < required_sessions
       then [frequency_conflict k assigned_sessions required_sessions]
       else [])
       (course_sessions s))"

text \<open>
  \<^verbatim>\<open>generate_schedule\<close>. \<open>run_schedule\<close> is its body and also returns the final
  \<^verbatim>\<open>course_sessions\<close> tally, which the method itself keeps local.
\<close>

definition sorted_courses :: "generator \<Rightarrow> course_entry list" where
  "sorted_courses gen = sort_key (\<lambda>x. (- int (frequency x), course_name x)) (courses gen)"

definition run_schedule ::
  "generator \<Rightarrow> state \<Rightarrow>
     error + (assignment list \<times> conflict list \<times> ((string \<times> string) \<times> int) list)" where
  "run_schedule gen s0 =
     (let s1 = s0\<lparr>conflicts := [],
                  course_sessions := map (\<lambda>k. (k, 0)) (dict_keys (map course_key (courses gen)))\<rparr>
      in case schedule_courses gen (sorted_courses gen) s1 of
           Inl e \<Rightarrow> Inl e
         | Inr s2 \<Rightarrow>
             Inr (collect_schedule gen s2,
                  conflicts s2 @ teacher_conflicts gen s2 @ room_conflicts gen s2 @
                    frequency_conflicts gen s2,
                  course_sessions s2))"

definition generate_schedule ::
  "generator \<Rightarrow> state \<Rightarrow> error + (assignment list \<times> conflict list)" where
  "generate_schedule gen s0 =
     (case run_schedule gen s0 of
        Inl e \<Rightarrow> Inl e
      | Inr (schedule, cfl, sessions) \<Rightarrow> Inr (schedule, cfl))"

text \<open>
  Constructing a \<^verbatim>\<open>ScheduleGenerator\<close> and calling \<^verbatim>\<open>generate_schedule\<close> once,
  as the application does. The outer \<open>None\<close> is a constructor that does not return.
\<close>

definition make_generator ::
  "teacher_entry list \<Rightarrow> room_entry list \<Rightarrow> class_entry list \<Rightarrow> course_entry list \<Rightarrow> options \<Rightarrow>
     generator option" where
  "make_generator ts rs cs crs opts =
     map_option (\<lambda>slots. \<lparr>teachers = ts, rooms = rs, classes = cs, courses = crs,
                           time_slots = slots\<rparr>)
       (generate_time_slots opts)"

definition schedule_once ::
  "teacher_entry list \<Rightarrow> room_entry list \<Rightarrow> class_entry list \<Rightarrow> course_entry list \<Rightarrow> options \<Rightarrow>
     nat list \<Rightarrow> (error + (assignment list \<times> conflict list)) option" where
  "schedule_once ts rs cs crs opts g =
     map_option (\<lambda>gen. generate_schedule gen (initial_state gen g))
       (make_generator ts rs cs crs opts)"

section \<open>Invariants used in the proofs\<close>

text \<open>
  What a run maintains about the ledgers: the keys of the class ledger are names of
  listed classes, and every day entry of the class ledger has the slots of the grid
  among its keys; every assignment stored in a class cell
  carries the name, day and time of that cell, is also the content of its teacher's
  and of its room's cell at that day and time, and names a room large enough for the
  class; the state's conflict list holds unscheduled-session records only.
\<close>

definition ledgers_ok :: "generator \<Rightarrow> state \<Rightarrow> bool" where
  "ledgers_ok gen s =
     (distinct (keys (class_schedule s)) \<and>
      set (keys (class_schedule s)) \<subseteq> class_name ` set (classes gen) \<and>
      (\<forall>n d. set (time_slots gen) \<subseteq> slot_keys (class_schedule s) n d) \<and>
      (\<forall>x\<in>set (conflicts s). ctype x = ''Unscheduled Session'') \<and>
      (\<forall>cname d t a. cells (class_schedule s) cname d t = Some a \<longrightarrow>
         cls a = cname \<and> day a = d \<and> time a = t \<and>
         cells (teacher_schedule s) (teacher a) d t = Some a \<and>
         cells (room_schedule s) (room a) d t = Some a \<and>
         (\<exists>r\<in>set (rooms gen). room_name r = room a \<and>
            get_class_size (classes gen) cname \<le> capacity r)))"

text \<open>
  What holds between the sessions of a single course that has the class, the teacher
  and the one room to itself: the days in \<open>assigned_days\<close> carry one session each,
  at some slot of the grid, every other cell is free, and the tally counts the days.
\<close>

definition session_of :: "course_entry \<Rightarrow> string \<Rightarrow> string \<Rightarrow> string \<Rightarrow> assignment" where
  "session_of c rname d t =
     \<lparr>course = course_name c, teacher = course_teacher c, room = rname, cls = course_class c,
      day = d, time = t\<rparr>"

definition week_inv :: "generator \<Rightarrow> course_entry \<Rightarrow> string \<Rightarrow> string set \<Rightarrow> state \<Rightarrow> bool" where
  "week_inv gen c rname ad s =
     (ad \<subseteq> set days \<and>
      keys (class_schedule s) = [course_class c] \<and>
      keys (teacher_schedule s) = [course_teacher c] \<and>
      keys (room_schedule s) = [rname] \<and>
      course_sessions s = [(course_key c, int (card ad))] \<and>
      conflicts s = [] \<and>
      (\<exists>f. (\<forall>d\<in>ad. f d \<in> set (time_slots gen)) \<and>
           (\<forall>n d t. cells (class_schedule s) n d t =
              (if n = course_class c \<and> d \<in> ad \<and> t = f d
               then Some (session_of c rname d t) else None))) \<and>
      (\<forall>n d t. d \<notin> ad \<longrightarrow>
         cells (teacher_schedule s) n d t = None \<and> cells (room_schedule s) n d t = None) \<and>
      (\<forall>n d. set (time_slots gen) \<subseteq> slot_keys (class_schedule s) n d \<and>
         set (time_slots gen) \<subseteq> slot_keys (teacher_schedule s) n d \<and>
         set (time_slots gen) \<subseteq> slot_keys (room_schedule s) n d))"

text \<open>
  \<open>ledgers_kept s s'\<close>: every assignment stored in a cell of \<open>s\<close> is still the
  content of that cell in \<open>s'\<close>.
\<close>

definition ledgers_kept :: "state \<Rightarrow> state \<Rightarrow> bool" where
  "ledgers_kept s s' =
     (\<forall>n d t a.
        (cells (class_schedule s) n d t = Some a \<longrightarrow> cells (class_schedule s') n d t = Some a) \<and>
        (cells (teacher_schedule s) n d t = Some a \<longrightarrow> cells (teacher_schedule s') n d t = Some a) \<and>
        (cells (room_schedule s) n d t = Some a \<longrightarrow> cells (room_schedule s') n d t = Some a))"

text \<open>
  The days a course already uses, read off the class ledger: the days on which a cell
  of the course's class holds a session of the course.
\<close>

definition course_days :: "course_entry \<Rightarrow> state \<Rightarrow> string set" where
  "course_days c s =
     {d. \<exists>t a. cells (class_schedule s) (course_class c) d t = Some a \<and> course a = course_name c}"

text \<open>
  The session loop once more, returning \<open>assigned_days\<close> together with the state: what
  the loop holds after the given number of sessions. \<open>schedule_sessions\<close> is its state
  component (lemma \<open>schedule_sessions_run\<close>).
\<close>

fun sessions_run ::
  "generator \<Rightarrow> course_entry \<Rightarrow> int \<Rightarrow> nat \<Rightarrow> string set \<Rightarrow> state \<Rightarrow>
     error + (string set \<times> state)" where
  "sessions_run gen c csize 0 assigned_days s = Inr (assigned_days, s)"
| "sessions_run gen c csize (Suc n) assigned_days s =
     (case shuffle days (rng s) of
        (ds, g') \<Rightarrow>
          (case try_days gen c csize ds assigned_days (s\<lparr>rng := g'\<rparr>) of
             Inl e \<Rightarrow> Inl e
           | Inr (session_scheduled, assigned_days', s') \<Rightarrow>
               sessions_run gen c csize n assigned_days'
                 (if session_scheduled then s'
                  else s'\<lparr>conflicts := conflicts s' @ [unscheduled_conflict c]\<rparr>)))"

text \<open>
  What a search leaves behind apart from \<open>assigned_days\<close>: whether the session was
  scheduled, and the state.
\<close>

definition outcome :: "error + (bool \<times> string set \<times> state) \<Rightarrow> error + (bool \<times> state)" where
  "outcome r = map_sum id (\<lambda>(session_scheduled, assigned_days, s). (session_scheduled, s)) r"

section \<open>Properties of the time grid\<close>

lemma next_cursor:
  "(if is_lunch_period opts k then a + lunch_duration opts else a + break_length opts) =
     a + gap opts k"
  by (simp add: gap_def)

lemma slot_loop_result:
  assumes "slot_loop opts e cur k acc = Some res"
  shows "loop_post opts e cur k acc res"
proof (rule slot_loop.raw_induct[where P = loop_post, OF _ assms])
  fix loop opts e cur k acc res
  assume IH: "\<And>e cur k acc b y. loop e cur k acc b = Some y \<Longrightarrow> loop_post e cur k acc b y"
    and unfold: "(if cur + period_length opts \<le> e
      then loop opts e
            (if is_lunch_period opts k
             then cur + period_length opts + lunch_duration opts
             else cur + period_length opts + break_length opts)
            (k + 1)
            (acc @ [(cur, cur + period_length opts)])
      else Some acc) = Some res"
  show "loop_post opts e cur k acc res"
  proof (cases "cur + period_length opts \<le> e")
    case False
    with unfold have "res = acc" by simp
    with False show ?thesis by (simp add: loop_post_def)
  next
    case True
    let ?next = "cur + period_length opts + gap opts k"
    let ?sl = "(cur, cur + period_length opts)"
    from True unfold have "loop opts e ?next (k + 1) (acc @ [?sl]) = Some res"
      by (simp add: next_cursor)
    from IH[OF this, unfolded loop_post_def] obtain ys where
      ys: "res = (acc @ [?sl]) @ ys" "chain opts ?next (k + 1) ys"
          "\<forall>sl\<in>set ys. snd sl \<le> e" by (elim exE conjE)
    have "res = acc @ (?sl # ys)" using ys(1) by simp
    moreover have "chain opts cur k (?sl # ys)" using ys(2) by simp
    moreover have "\<forall>sl\<in>set (?sl # ys). snd sl \<le> e" using ys(3) True by simp
    ultimately show ?thesis using True unfolding loop_post_def
      by (intro exI[of _ "?sl # ys"]) simp
  qed
qed

lemma slot_loop_returns:
  assumes "0 < period_length opts" and "\<And>j. 0 \<le> gap opts j"
  shows "\<exists>res. slot_loop opts e cur k acc = Some res"
proof (induction "nat (e - cur)" arbitrary: cur k acc rule: less_induct)
  case less
  show ?case
  proof (cases "cur + period_length opts \<le> e")
    case False
    then show ?thesis by (subst slot_loop.simps) simp
  next
    case True
    let ?next = "cur + period_length opts + gap opts k"
    have "nat (e - ?next) < nat (e - cur)"
      using True assms(1) assms(2)[of k] by linarith
    from less[OF this] obtain res where
      "slot_loop opts e ?next (k + 1) (acc @ [(cur, cur + period_length opts)]) = Some res"
      by blast
    then show ?thesis using True
      by (subst slot_loop.simps) (simp add: next_cursor)
  qed
qed

lemma slot_loop_empty:
  "e < cur + period_length opts \<Longrightarrow> slot_loop opts e cur k acc = Some acc"
  by (subst slot_loop.simps) simp

lemma gap_nonneg: "valid_grid opts \<Longrightarrow> 0 \<le> gap opts k"
  by (auto simp: valid_grid_def gap_def is_lunch_period_def)

lemma chain_nth_gap:
  "chain opts cur k ys \<Longrightarrow> Suc i < length ys \<Longrightarrow>
     fst (ys ! Suc i) = snd (ys ! i) + gap opts (k + int i)"
proof (induction ys arbitrary: cur k i)
  case Nil
  then show ?case by simp
next
  case (Cons sl rest)
  show ?case
  proof (cases i)
    case 0
    from Cons.prems 0 obtain sl2 rest2 where r: "rest = sl2 # rest2" by (cases rest) auto
    with Cons.prems 0 show ?thesis by simp
  next
    case (Suc j)
    with Cons.prems have c: "chain opts (cur + period_length opts + gap opts k) (k + 1) rest"
      and l: "Suc j < length rest" by auto
    have "k + 1 + int j = k + int (Suc j)" by simp
    with Cons.IH[OF c l] show ?thesis using Suc by simp
  qed
qed

lemma chain_bounds:
  "chain opts cur k ys \<Longrightarrow> 0 < period_length opts \<Longrightarrow> (\<And>j. 0 \<le> gap opts j) \<Longrightarrow>
     (\<forall>sl\<in>set ys. snd sl = fst sl + period_length opts \<and> cur \<le> fst sl) \<and>
     sorted_wrt (\<lambda>a b. snd a \<le> fst b) ys"
proof (induction ys arbitrary: cur k)
  case Nil
  then show ?case by simp
next
  case (Cons sl rest)
  let ?next = "cur + period_length opts + gap opts k"
  from Cons.prems have sl: "sl = (cur, cur + period_length opts)" and ch: "chain opts ?next (k + 1) rest"
    by auto
  from Cons.IH[OF ch Cons.prems(2,3)] have
    ih: "\<forall>sl\<in>set rest. snd sl = fst sl + period_length opts \<and> ?next \<le> fst sl"
        "sorted_wrt (\<lambda>a b. snd a \<le> fst b) rest" by auto
  have "0 \<le> gap opts k" by (rule Cons.prems(3))
  with ih(1) Cons.prems(2) have "\<forall>b\<in>set rest. snd sl \<le> fst b \<and> cur \<le> fst b"
    unfolding sl by fastforce
  with ih sl show ?case by auto
qed

lemma generate_slots_valid:
  assumes "valid_grid opts"
  shows "\<exists>slots. generate_slots opts = Some slots \<and>
           chain opts (minutes_of (start_time opts)) 1 slots \<and>
           (\<forall>sl\<in>set slots. snd sl \<le> minutes_of (end_time opts)) \<and>
           (slots = [] \<longleftrightarrow>
              minutes_of (end_time opts) < minutes_of (start_time opts) + period_length opts)"
proof -
  from assms have p: "0 < period_length opts" by (simp add: valid_grid_def)
  from slot_loop_returns[OF p gap_nonneg[OF assms]] obtain res where
    res: "slot_loop opts (minutes_of (end_time opts)) (minutes_of (start_time opts)) 1 [] = Some res"
    by blast
  from slot_loop_result[OF res] show ?thesis
    using res by (auto simp: loop_post_def generate_slots_def)
qed

lemma sorted_wrt_starts:
  assumes "sorted_wrt (\<lambda>a b. snd a \<le> fst b) (ys :: slot list)"
    and "\<forall>sl\<in>set ys. fst sl < snd sl"
  shows "sorted_wrt (\<lambda>a b. fst a < fst b) ys"
  using assms by (induction ys) fastforce+

text \<open>
  C6. For every valid grid configuration the builder returns, and the slots it returns
  are in strictly increasing start-time order, no slot starts before the previous one
  ends, and every slot lasts exactly the period length. The labels are the formatted
  slots, in the same order.
\<close>

theorem grid_slots_ordered:
  assumes "valid_grid opts"
  shows "\<exists>slots. generate_slots opts = Some slots \<and>
           generate_time_slots opts = Some (map slot_label slots) \<and>
           sorted_wrt (\<lambda>a b. fst a < fst b) slots \<and>
           sorted_wrt (\<lambda>a b. snd a \<le> fst b) slots \<and>
           (\<forall>sl\<in>set slots. snd sl - fst sl = period_length opts)"
proof -
  from generate_slots_valid[OF assms] obtain slots where
    s: "generate_slots opts = Some slots" "chain opts (minutes_of (start_time opts)) 1 slots"
    by blast
  from assms have p: "0 < period_length opts" by (simp add: valid_grid_def)
  from chain_bounds[OF s(2) p gap_nonneg[OF assms]] have
    b: "\<forall>sl\<in>set slots. snd sl = fst sl + period_length opts"
       "sorted_wrt (\<lambda>a b. snd a \<le> fst b) slots" by auto
  from b(1) p have "\<forall>sl\<in>set slots. fst sl < snd sl" by auto
  from sorted_wrt_starts[OF b(2) this] have "sorted_wrt (\<lambda>a b. fst a < fst b) slots" .
  moreover have "generate_time_slots opts = Some (map slot_label slots)"
    using s(1) by (simp add: generate_time_slots_def)
  moreover from b(1) have "\<forall>sl\<in>set slots. snd sl - fst sl = period_length opts" by auto
  ultimately show ?thesis using s(1) b(2) by blast
qed

theorem grid_slots_ordered_witness:
  "valid_grid \<lparr>start_time = \<lparr>hour = 8, minute = 0\<rparr>, end_time = \<lparr>hour = 12, minute = 0\<rparr>,
      period_length = 50, break_length = 10, lunch_period = ''After period 3'',
      lunch_duration = 30\<rparr> \<and>
   (\<exists>slots. generate_slots \<lparr>start_time = \<lparr>hour = 8, minute = 0\<rparr>,
        end_time = \<lparr>hour = 12, minute = 0\<rparr>, period_length = 50, break_length = 10,
        lunch_period = ''After period 3'', lunch_duration = 30\<rparr> = Some slots \<and>
      sorted_wrt (\<lambda>a b. fst a < fst b) slots \<and>
      sorted_wrt (\<lambda>a b. snd a \<le> fst b) slots)"
proof -
  have v: "valid_grid \<lparr>start_time = \<lparr>hour = 8, minute = 0\<rparr>,
      end_time = \<lparr>hour = 12, minute = 0\<rparr>, period_length = 50, break_length = 10,
      lunch_period = ''After period 3'', lunch_duration = 30\<rparr>"
    by (simp add: valid_grid_def valid_time_def minutes_of_def)
  from grid_slots_ordered[OF v] v show ?thesis by auto
qed

text \<open>
  C7 as stated fails: a grid whose first slot does not fit is not rejected. The
  builder returns the empty slot list and a run on that grid goes ahead, returning
  no assignment and the records of the sessions it could not place.
\<close>

theorem first_slot_unfit_counterexample:
  "generate_time_slots \<lparr>start_time = \<lparr>hour = 8, minute = 0\<rparr>,
      end_time = \<lparr>hour = 8, minute = 30\<rparr>, period_length = 50, break_length = 10,
      lunch_period = ''No lunch'', lunch_duration = 30\<rparr> = Some [] \<and>
   schedule_once [\<lparr>teacher_name = ''Ann''\<rparr>] [\<lparr>room_name = ''R1'', capacity = 30\<rparr>]
      [\<lparr>class_name = ''9A'', class_size = 25\<rparr>]
      [\<lparr>course_name = ''Math'', course_teacher = ''Ann'', course_class = ''9A'', frequency = 1\<rparr>]
      \<lparr>start_time = \<lparr>hour = 8, minute = 0\<rparr>,
      end_time = \<lparr>hour = 8, minute = 30\<rparr>, period_length = 50, break_length = 10,
      lunch_period = ''No lunch'', lunch_duration = 30\<rparr> [] =
     Some (Inr ([],
       [\<lparr>ctype = ''Unscheduled Session'', cday = ''N/A'', ctime = ''N/A'',
          description = ''Could not schedule a session for Math (Class: 9A, Teacher: Ann)''\<rparr>,
        \<lparr>ctype = ''Frequency Not Met'', cday = ''N/A'', ctime = ''N/A'',
          description = ''Course Math (Class: 9A) was scheduled for 0/1 required sessions''\<rparr>]))"
  by code_simp

text \<open>
  C7, amended. When the first slot cannot fit (start of day + period length after the
  end of day) the builder raises nothing and returns the empty slot sequence; for
  every other valid configuration it returns a non-empty slot sequence in strictly
  increasing start-time order.
\<close>

theorem grid_empty_or_ordered:
  "(minutes_of (end_time opts) < minutes_of (start_time opts) + period_length opts \<longrightarrow>
      generate_time_slots opts = Some []) \<and>
   (valid_grid opts \<and>
    minutes_of (start_time opts) + period_length opts \<le> minutes_of (end_time opts) \<longrightarrow>
      (\<exists>slots. generate_slots opts = Some slots \<and>
         generate_time_slots opts = Some (map slot_label slots) \<and> slots \<noteq> [] \<and>
         sorted_wrt (\<lambda>a b. fst a < fst b) slots))"
proof (intro conjI impI)
  assume "minutes_of (end_time opts) < minutes_of (start_time opts) + period_length opts"
  then show "generate_time_slots opts = Some []"
    by (simp add: generate_time_slots_def generate_slots_def slot_loop_empty)
next
  assume a: "valid_grid opts \<and>
    minutes_of (start_time opts) + period_length opts \<le> minutes_of (end_time opts)"
  then have v: "valid_grid opts" and p: "0 < period_length opts"
    by (simp_all add: valid_grid_def)
  from generate_slots_valid[OF v] a obtain slots where
    s: "generate_slots opts = Some slots" "chain opts (minutes_of (start_time opts)) 1 slots"
       "slots \<noteq> []"
    by auto
  from chain_bounds[OF s(2) p gap_nonneg[OF v]] have
    b: "\<forall>sl\<in>set slots. snd sl = fst sl + period_length opts"
       "sorted_wrt (\<lambda>a b. snd a \<le> fst b) slots" by auto
  from b(1) p have "\<forall>sl\<in>set slots. fst sl < snd sl" by auto
  from sorted_wrt_starts[OF b(2) this] have "sorted_wrt (\<lambda>a b. fst a < fst b) slots" .
  then show "\<exists>slots. generate_slots opts = Some slots \<and>
         generate_time_slots opts = Some (map slot_label slots) \<and> slots \<noteq> [] \<and>
         sorted_wrt (\<lambda>a b. fst a < fst b) slots"
    using s by (auto simp: generate_time_slots_def)
qed

theorem grid_empty_or_ordered_witness:
  "generate_time_slots \<lparr>start_time = \<lparr>hour = 8, minute = 0\<rparr>,
      end_time = \<lparr>hour = 8, minute = 30\<rparr>, period_length = 50, break_length = 10,
      lunch_period = ''No lunch'', lunch_duration = 30\<rparr> = Some [] \<and>
   (\<exists>slots. generate_slots \<lparr>start_time = \<lparr>hour = 8, minute = 0\<rparr>,
        end_time = \<lparr>hour = 12, minute = 0\<rparr>, period_length = 50, break_length = 10,
        lunch_period = ''After period 3'', lunch_duration = 30\<rparr> = Some slots \<and>
      slots \<noteq> [] \<and> sorted_wrt (\<lambda>a b. fst a < fst b) slots)"
proof -
  have v: "valid_grid \<lparr>start_time = \<lparr>hour = 8, minute = 0\<rparr>,
      end_time = \<lparr>hour = 12, minute = 0\<rparr>, period_length = 50, break_length = 10,
      lunch_period = ''After period 3'', lunch_duration = 30\<rparr>"
    by (simp add: valid_grid_def valid_time_def minutes_of_def)
  have "generate_time_slots \<lparr>start_time = \<lparr>hour = 8, minute = 0\<rparr>,
      end_time = \<lparr>hour = 8, minute = 30\<rparr>, period_length = 50, break_length = 10,
      lunch_period = ''No lunch'', lunch_duration = 30\<rparr> = Some []"
    using grid_empty_or_ordered[of "\<lparr>start_time = \<lparr>hour = 8, minute = 0\<rparr>,
      end_time = \<lparr>hour = 8, minute = 30\<rparr>, period_length = 50, break_length = 10,
      lunch_period = ''No lunch'', lunch_duration = 30\<rparr>"]
    by (simp add: minutes_of_def)
  moreover have "\<exists>slots. generate_slots \<lparr>start_time = \<lparr>hour = 8, minute = 0\<rparr>,
        end_time = \<lparr>hour = 12, minute = 0\<rparr>, period_length = 50, break_length = 10,
        lunch_period = ''After period 3'', lunch_duration = 30\<rparr> = Some slots \<and>
      slots \<noteq> [] \<and> sorted_wrt (\<lambda>a b. fst a < fst b) slots"
    using grid_empty_or_ordered[of "\<lparr>start_time = \<lparr>hour = 8, minute = 0\<rparr>,
        end_time = \<lparr>hour = 12, minute = 0\<rparr>, period_length = 50, break_length = 10,
        lunch_period = ''After period 3'', lunch_duration = 30\<rparr>"] v
    by (auto simp: minutes_of_def)
  ultimately show ?thesis by simp
qed

text \<open>
  C8 as stated fails for a rule naming a period other than 3 or 4: the comparison in
  the loop knows the two strings \<^verbatim>\<open>"After period 3"\<close> and \<^verbatim>\<open>"After period 4"\<close>
  only. With the rule \<^verbatim>\<open>"After period 2"\<close>, a lunch of 30 minutes and a break of 10,
  the third slot starts 10 minutes after the second ends.
\<close>

theorem lunch_rule_other_period_counterexample:
  "generate_slots \<lparr>start_time = \<lparr>hour = 8, minute = 0\<rparr>,
      end_time = \<lparr>hour = 11, minute = 0\<rparr>, period_length = 50, break_length = 10,
      lunch_period = ''After period 2'', lunch_duration = 30\<rparr> =
     Some [(480, 530), (540, 590), (600, 650)]"
  by code_simp

text \<open>
  C8, amended. For every valid configuration the builder returns; and whenever it
  returns, the slot after period \<open>i + 1\<close> starts the lunch duration after that
  period ends if the lunch rule is \<^verbatim>\<open>"After period 3"\<close> and the period is the
  third, or the rule is \<^verbatim>\<open>"After period 4"\<close> and the period is the fourth; after
  every other period, and under every other value of the rule, it starts the break
  length after the period ends.
\<close>

theorem lunch_gap_after_period:
  "(valid_grid opts \<longrightarrow> (\<exists>slots. generate_slots opts = Some slots)) \<and>
   (generate_slots opts = Some slots \<and> Suc i < length slots \<longrightarrow>
      fst (slots ! Suc i) = snd (slots ! i) +
        (if (lunch_period opts = ''After period 3'' \<and> i + 1 = 3) \<or>
            (lunch_period opts = ''After period 4'' \<and> i + 1 = 4)
         then lunch_duration opts else break_length opts))"
proof (intro conjI impI)
  assume "valid_grid opts"
  from generate_slots_valid[OF this] show "\<exists>slots. generate_slots opts = Some slots"
    by blast
next
  assume a: "generate_slots opts = Some slots \<and> Suc i < length slots"
  then have "slot_loop opts (minutes_of (end_time opts)) (minutes_of (start_time opts)) 1 [] =
      Some slots"
    by (simp add: generate_slots_def)
  from slot_loop_result[OF this]
  have "chain opts (minutes_of (start_time opts)) 1 slots"
    by (simp add: loop_post_def)
  from chain_nth_gap[OF this] a show "fst (slots ! Suc i) = snd (slots ! i) +
        (if (lunch_period opts = ''After period 3'' \<and> i + 1 = 3) \<or>
            (lunch_period opts = ''After period 4'' \<and> i + 1 = 4)
         then lunch_duration opts else break_length opts)"
    by (simp add: gap_def is_lunch_period_def)
qed

theorem lunch_gap_after_period_witness:
  "valid_grid \<lparr>start_time = \<lparr>hour = 8, minute = 0\<rparr>,
      end_time = \<lparr>hour = 13, minute = 0\<rparr>, period_length = 50, break_length = 10,
      lunch_period = ''After period 3'', lunch_duration = 30\<rparr> \<and>
   generate_slots \<lparr>start_time = \<lparr>hour = 8, minute = 0\<rparr>,
      end_time = \<lparr>hour = 13, minute = 0\<rparr>, period_length = 50, break_length = 10,
      lunch_period = ''After period 3'', lunch_duration = 30\<rparr> =
     Some [(480 :: int, 530 :: int), (540, 590), (600, 650), (680, 730)] \<and>
   fst ([(480 :: int, 530 :: int), (540, 590), (600, 650), (680, 730)] ! Suc 2) =
     snd ([(480 :: int, 530 :: int), (540, 590), (600, 650), (680, 730)] ! 2) + (30 :: int)"
proof -
  have v: "valid_grid \<lparr>start_time = \<lparr>hour = 8, minute = 0\<rparr>,
      end_time = \<lparr>hour = 13, minute = 0\<rparr>, period_length = 50, break_length = 10,
      lunch_period = ''After period 3'', lunch_duration = 30\<rparr>"
    by (simp add: valid_grid_def valid_time_def minutes_of_def)
  have g: "generate_slots \<lparr>start_time = \<lparr>hour = 8, minute = 0\<rparr>,
      end_time = \<lparr>hour = 13, minute = 0\<rparr>, period_length = 50, break_length = 10,
      lunch_period = ''After period 3'', lunch_duration = 30\<rparr> =
     Some [(480 :: int, 530 :: int), (540, 590), (600, 650), (680, 730)]"
    by code_simp
  have l: "Suc 2 < length [(480 :: int, 530 :: int), (540, 590), (600, 650), (680, 730)]" by simp
  note w = lunch_gap_after_period[where opts = "\<lparr>start_time = \<lparr>hour = 8, minute = 0\<rparr>,
      end_time = \<lparr>hour = 13, minute = 0\<rparr>, period_length = 50, break_length = 10,
      lunch_period = ''After period 3'', lunch_duration = 30\<rparr>"
      and slots = "[(480 :: int, 530 :: int), (540, 590), (600, 650), (680, 730)]" and i = 2]
  from w v have "\<exists>slots. generate_slots \<lparr>start_time = \<lparr>hour = 8, minute = 0\<rparr>,
      end_time = \<lparr>hour = 13, minute = 0\<rparr>, period_length = 50, break_length = 10,
      lunch_period = ''After period 3'', lunch_duration = 30\<rparr> = Some slots"
    by blast
  moreover from w g l have "fst ([(480 :: int, 530 :: int), (540, 590), (600, 650), (680, 730)] ! Suc 2) =
     snd ([(480 :: int, 530 :: int), (540, 590), (600, 650), (680, 730)] ! 2) + (30 :: int)"
    by simp
  ultimately show ?thesis using v g by blast
qed

section \<open>The random module permutes\<close>

lemma randbelow_less: "0 < n \<Longrightarrow> randbelow n g = (j, g') \<Longrightarrow> j < n"
  by (cases g) auto

lemma shuffle_from_mset:
  "i < length x \<Longrightarrow> mset (fst (shuffle_from i x g)) = mset x"
proof (induction i arbitrary: x g)
  case 0
  then show ?case by simp
next
  case (Suc i)
  obtain j g' where r: "randbelow (Suc i + 1) g = (j, g')" by (cases "randbelow (Suc i + 1) g")
  from randbelow_less[OF _ r] have "j < Suc i + 1" by simp
  then have j: "j < length x" using Suc.prems by simp
  have "mset (x[Suc i := x ! j, j := x ! Suc i]) = mset x"
    using mset_swap[OF j Suc.prems] by simp
  moreover have "i < length (x[Suc i := x ! j, j := x ! Suc i])" using Suc.prems by simp
  ultimately show ?case using Suc.IH r by simp
qed

lemma shuffle_mset: "mset (fst (shuffle x g)) = mset x"
proof (cases x)
  case Nil
  then show ?thesis by (simp add: shuffle_def)
next
  case (Cons a list)
  then show ?thesis by (simp add: shuffle_def shuffle_from_mset)
qed

lemma shuffle_set: "shuffle x g = (y, g') \<Longrightarrow> set y = set x"
  using shuffle_mset[of x g] by (auto dest: mset_eq_setD)

lemma shuffle_length: "shuffle x g = (y, g') \<Longrightarrow> length y = length x"
  using shuffle_mset[of x g] by (auto dest: mset_eq_length)

lemma shuffle_nil: "shuffle [] g = ([], g)"
  by (simp add: shuffle_def)

lemma shuffle_single: "shuffle [a] g = ([a], g)"
  by (simp add: shuffle_def)

section \<open>Ledger invariant\<close>

lemma ledgers_ok_cong:
  assumes "class_schedule s' = class_schedule s" "teacher_schedule s' = teacher_schedule s"
    "room_schedule s' = room_schedule s" "conflicts s' = conflicts s"
  shows "ledgers_ok gen s' = ledgers_ok gen s"
  unfolding ledgers_ok_def assms ..

lemma ledgers_ok_rng [simp]: "ledgers_ok gen (s\<lparr>rng := g\<rparr>) = ledgers_ok gen s"
  by (rule ledgers_ok_cong) simp_all

lemma ledgers_ok_sessions [simp]:
  "ledgers_ok gen (s\<lparr>course_sessions := m\<rparr>) = ledgers_ok gen s"
  by (rule ledgers_ok_cong) simp_all

lemma ledgers_ok_unscheduled:
  "ledgers_ok gen s \<Longrightarrow> ledgers_ok gen (s\<lparr>conflicts := conflicts s @ [unscheduled_conflict c]\<rparr>)"
  unfolding ledgers_ok_def by (auto simp: unscheduled_conflict_def)

lemma lookup_cell_Inr:
  "lookup_cell l n d t = Inr v \<Longrightarrow>
     n \<in> set (keys l) \<and> d \<in> set days \<and> t \<in> slot_keys l n d \<and> v = cells l n d t"
  by (auto simp: lookup_cell_def split: if_splits)

lemma lookup_cell_present:
  "n \<in> set (keys l) \<Longrightarrow> d \<in> set days \<Longrightarrow> t \<in> slot_keys l n d \<Longrightarrow>
     lookup_cell l n d t = Inr (cells l n d t)"
  by (simp add: lookup_cell_def)

lemma store_cell_Inr:
  "store_cell l n d t a = Inr l' \<Longrightarrow>
     l' = set_cell l n d t a \<and> n \<in> set (keys l) \<and> d \<in> set days"
  by (auto simp: store_cell_def split: if_splits)

lemma first_free_room_Some:
  "first_free_room l d t rs = Inr (Some rname) \<Longrightarrow>
     \<exists>r\<in>set rs. room_name r = rname \<and> lookup_cell l rname d t = Inr None"
proof (induction rs)
  case Nil
  then show ?case by simp
next
  case (Cons r rs)
  show ?case
  proof (cases "lookup_cell l (room_name r) d t")
    case (Inl e)
    with Cons.prems show ?thesis by simp
  next
    case (Inr v)
    show ?thesis
    proof (cases v)
      case None
      with Inr Cons.prems show ?thesis by auto
    next
      case (Some a)
      with Inr Cons.prems have "first_free_room l d t rs = Inr (Some rname)" by simp
      from Cons.IH[OF this] show ?thesis by auto
    qed
  qed
qed

lemma find_available_room_Some:
  assumes "find_available_room gen s csize d t = Inr (Some rname, g')"
  shows "\<exists>r\<in>set (rooms gen). room_name r = rname \<and> csize \<le> capacity r \<and>
           cells (room_schedule s) rname d t = None"
proof -
  obtain suitable g1 where sh: "shuffle (filter (\<lambda>r. csize \<le> capacity r) (rooms gen)) (rng s) = (suitable, g1)"
    by (cases "shuffle (filter (\<lambda>r. csize \<le> capacity r) (rooms gen)) (rng s)")
  with assms have "first_free_room (room_schedule s) d t suitable = Inr (Some rname)"
    by (auto simp: find_available_room_def split: sum.splits)
  from first_free_room_Some[OF this] obtain r where
    r: "r \<in> set suitable" "room_name r = rname"
       "lookup_cell (room_schedule s) rname d t = Inr None" by blast
  from lookup_cell_Inr[OF r(3)] have free: "cells (room_schedule s) rname d t = None" by simp
  from r(1) shuffle_set[OF sh] have "r \<in> set (rooms gen)" "csize \<le> capacity r" by auto
  with r(2) free show ?thesis by auto
qed

lemma is_slot_available_True:
  assumes "is_slot_available s cname tname rname d t = Inr True"
  shows "cname \<in> set (keys (class_schedule s)) \<and> tname \<in> set (keys (teacher_schedule s)) \<and>
     rname \<in> set (keys (room_schedule s)) \<and>
     cells (class_schedule s) cname d t = None \<and> cells (teacher_schedule s) tname d t = None \<and>
     cells (room_schedule s) rname d t = None \<and> d \<in> set days \<and>
     t \<in> slot_keys (class_schedule s) cname d \<and> t \<in> slot_keys (teacher_schedule s) tname d \<and>
     t \<in> slot_keys (room_schedule s) rname d"
proof -
  from assms have
    "lookup_cell (class_schedule s) cname d t = Inr None"
    "lookup_cell (teacher_schedule s) tname d t = Inr None"
    "lookup_cell (room_schedule s) rname d t = Inr None"
    by (auto simp: is_slot_available_def split: sum.splits option.splits)
  then show ?thesis by (auto dest!: lookup_cell_Inr)
qed

lemma assign_time_slot_Inr:
  "assign_time_slot s c cname tname rname d t = Inr s' \<Longrightarrow>
     s' = s\<lparr>class_schedule := set_cell (class_schedule s) cname d t
             \<lparr>course = course_name c, teacher = tname, room = rname, cls = cname, day = d, time = t\<rparr>,
           teacher_schedule := set_cell (teacher_schedule s) tname d t
             \<lparr>course = course_name c, teacher = tname, room = rname, cls = cname, day = d, time = t\<rparr>,
           room_schedule := set_cell (room_schedule s) rname d t
             \<lparr>course = course_name c, teacher = tname, room = rname, cls = cname, day = d, time = t\<rparr>\<rparr>"
  by (auto simp: assign_time_slot_def Let_def split: sum.splits dest!: store_cell_Inr)

lemma assign_keeps_ok:
  assumes ok: "ledgers_ok gen s"
    and free: "cells (class_schedule s) cname d t = None"
      "cells (teacher_schedule s) tname d t = None" "cells (room_schedule s) rname d t = None"
    and asg: "assign_time_slot s c cname tname rname d t = Inr s'"
    and rm: "\<exists>r\<in>set (rooms gen). room_name r = rname \<and>
               get_class_size (classes gen) cname \<le> capacity r"
  shows "ledgers_ok gen s'"
proof -
  let ?a = "\<lparr>course = course_name c, teacher = tname, room = rname, cls = cname, day = d, time = t\<rparr>"
  note s' = assign_time_slot_Inr[OF asg]
  have keys: "distinct (keys (class_schedule s'))"
    "set (keys (class_schedule s')) \<subseteq> class_name ` set (classes gen)"
    "\<forall>x\<in>set (conflicts s'). ctype x = ''Unscheduled Session''"
    using ok by (simp_all add: s' ledgers_ok_def set_cell_def)
  have "\<And>n d x. x \<in> set (time_slots gen) \<Longrightarrow> x \<in> slot_keys (class_schedule s) n d"
    using ok unfolding ledgers_ok_def by blast
  then have sk: "\<forall>n d. set (time_slots gen) \<subseteq> slot_keys (class_schedule s') n d"
    by (auto simp: s' set_cell_def)
  have "cls a = cn \<and> day a = d' \<and> time a = t' \<and>
         cells (teacher_schedule s') (teacher a) d' t' = Some a \<and>
         cells (room_schedule s') (room a) d' t' = Some a \<and>
         (\<exists>r\<in>set (rooms gen). room_name r = room a \<and>
            get_class_size (classes gen) cn \<le> capacity r)"
    if c: "cells (class_schedule s') cn d' t' = Some a" for cn d' t' a
  proof (cases "cn = cname \<and> d' = d \<and> t' = t")
    case True
    with c have "a = ?a" by (simp add: s' set_cell_def)
    with True rm show ?thesis by (simp add: s' set_cell_def)
  next
    case False
    with c have old: "cells (class_schedule s) cn d' t' = Some a"
      by (auto simp: s' set_cell_def split: if_splits)
    with ok have o: "cls a = cn" "day a = d'" "time a = t'"
         "cells (teacher_schedule s) (teacher a) d' t' = Some a"
         "cells (room_schedule s) (room a) d' t' = Some a"
         "\<exists>r\<in>set (rooms gen). room_name r = room a \<and>
            get_class_size (classes gen) cn \<le> capacity r"
      unfolding ledgers_ok_def by blast+
    from o(4) free(2) have "\<not> (teacher a = tname \<and> d' = d \<and> t' = t)" by auto
    then have 1: "cells (teacher_schedule s') (teacher a) d' t' = Some a"
      using o(4) by (auto simp: s' set_cell_def)
    from o(5) free(3) have "\<not> (room a = rname \<and> d' = d \<and> t' = t)" by auto
    then have 2: "cells (room_schedule s') (room a) d' t' = Some a"
      using o(5) by (auto simp: s' set_cell_def)
    from o 1 2 show ?thesis by simp
  qed
  with keys sk show ?thesis unfolding ledgers_ok_def by blast
qed

lemma try_time_slots_ok:
  assumes "csize = get_class_size (classes gen) (course_class c)"
  shows "ledgers_ok gen s \<Longrightarrow> try_time_slots gen c csize d ts ad s = Inr (ok, ad', s') \<Longrightarrow>
           ledgers_ok gen s'"
proof (induction ts arbitrary: s)
  case Nil
  then show ?case by simp
next
  case (Cons t ts)
  from Cons.prems obtain room_opt g' where
    f: "find_available_room gen s csize d t = Inr (room_opt, g')"
    by (cases "find_available_room gen s csize d t") auto
  let ?s1 = "s\<lparr>rng := g'\<rparr>"
  have ok1: "ledgers_ok gen ?s1" using Cons.prems(1) by simp
  show ?case
  proof (cases "room_opt = None \<or> room_opt = Some []")
    case True
    with Cons.prems(2) f have "try_time_slots gen c csize d ts ad ?s1 = Inr (ok, ad', s')"
      by (auto simp: Let_def)
    from Cons.IH[OF ok1 this] show ?thesis .
  next
    case False
    then obtain rname where rn: "room_opt = Some rname" "rname \<noteq> []" by auto
    from find_available_room_Some[OF f[unfolded rn(1)]] assms have
      rm: "\<exists>r\<in>set (rooms gen). room_name r = rname \<and>
             get_class_size (classes gen) (course_class c) \<le> capacity r" by auto
    show ?thesis
    proof (cases "is_slot_available ?s1 (course_class c) (course_teacher c) rname d t")
      case (Inl e)
      with Cons.prems(2) f rn show ?thesis by (simp add: Let_def)
    next
      case (Inr b)
      show ?thesis
      proof (cases b)
        case False
        with Inr Cons.prems(2) f rn have "try_time_slots gen c csize d ts ad ?s1 = Inr (ok, ad', s')"
          by (simp add: Let_def)
        from Cons.IH[OF ok1 this] show ?thesis .
      next
        case True
        from Inr True have
          "is_slot_available ?s1 (course_class c) (course_teacher c) rname d t = Inr True"
          by simp
        note av = is_slot_available_True[OF this]
        from True Inr Cons.prems(2) f rn obtain s2 where
          a: "assign_time_slot ?s1 c (course_class c) (course_teacher c) rname d t = Inr s2"
          and s': "s' = s2\<lparr>course_sessions := bump_sessions (course_key c) (course_sessions s2)\<rparr>"
          by (auto simp: Let_def split: sum.splits)
        from av have fr: "cells (class_schedule ?s1) (course_class c) d t = None"
          "cells (teacher_schedule ?s1) (course_teacher c) d t = None"
          "cells (room_schedule ?s1) rname d t = None" by simp_all
        from assign_keeps_ok[OF ok1 fr a rm] show ?thesis by (simp add: s')
      qed
    qed
  qed
qed

lemma search_day_ok:
  assumes "csize = get_class_size (classes gen) (course_class c)"
    and "ledgers_ok gen s" and "search_day gen c csize d ad s = Inr (ok, ad', s')"
  shows "ledgers_ok gen s'"
proof -
  obtain slots g' where sh: "shuffle (time_slots gen) (rng s) = (slots, g')"
    by (cases "shuffle (time_slots gen) (rng s)")
  with assms(3) have "try_time_slots gen c csize d slots ad (s\<lparr>rng := g'\<rparr>) = Inr (ok, ad', s')"
    by (simp add: search_day_def)
  from try_time_slots_ok[OF assms(1) _ this] assms(2) show ?thesis by simp
qed

lemma try_days_ok:
  assumes "csize = get_class_size (classes gen) (course_class c)"
  shows "ledgers_ok gen s \<Longrightarrow> try_days gen c csize ds ad s = Inr (ok, ad', s') \<Longrightarrow>
           ledgers_ok gen s'"
proof (induction ds arbitrary: s ad)
  case Nil
  then show ?case by simp
next
  case (Cons d ds)
  show ?case
  proof (cases "d \<in> ad \<and> card ad < length days")
    case True
    with Cons.prems(2) have "try_days gen c csize ds ad s = Inr (ok, ad', s')" by simp
    from Cons.IH[OF Cons.prems(1) this] show ?thesis .
  next
    case False
    show ?thesis
    proof (cases "search_day gen c csize d ad s")
      case (Inl e)
      with False Cons.prems(2) show ?thesis by auto
    next
      case (Inr res)
      obtain ok1 ad1 s1 where res: "res = (ok1, ad1, s1)" by (cases res)
      from search_day_ok[OF assms Cons.prems(1) Inr[unfolded res]] have ok1: "ledgers_ok gen s1" .
      show ?thesis
      proof (cases ok1)
        case True
        with False Cons.prems(2) Inr res have "s' = s1" by auto
        with ok1 show ?thesis by simp
      next
        case F: False
        with False Cons.prems(2) Inr res have "try_days gen c csize ds ad1 s1 = Inr (ok, ad', s')"
          by auto
        from Cons.IH[OF ok1 this] show ?thesis .
      qed
    qed
  qed
qed

lemma schedule_sessions_ok:
  assumes "csize = get_class_size (classes gen) (course_class c)"
  shows "ledgers_ok gen s \<Longrightarrow> schedule_sessions gen c csize n ad s = Inr s' \<Longrightarrow>
           ledgers_ok gen s'"
proof (induction n arbitrary: s ad)
  case 0
  then show ?case by simp
next
  case (Suc n)
  obtain ds g' where sh: "shuffle days (rng s) = (ds, g')" by (cases "shuffle days (rng s)")
  show ?case
  proof (cases "try_days gen c csize ds ad (s\<lparr>rng := g'\<rparr>)")
    case (Inl e)
    with Suc.prems(2) sh show ?thesis by simp
  next
    case (Inr res)
    obtain ok1 ad1 s1 where res: "res = (ok1, ad1, s1)" by (cases res)
    from try_days_ok[OF assms _ Inr[unfolded res]] Suc.prems(1) have ok1: "ledgers_ok gen s1"
      by simp
    let ?s2 = "if ok1 then s1 else s1\<lparr>conflicts := conflicts s1 @ [unscheduled_conflict c]\<rparr>"
    have ok2: "ledgers_ok gen ?s2" using ok1 ledgers_ok_unscheduled by simp
    from Suc.prems(2) sh Inr res have "schedule_sessions gen c csize n ad1 ?s2 = Inr s'"
      by simp
    from Suc.IH[OF ok2 this] show ?thesis .
  qed
qed

lemma schedule_courses_ok:
  "ledgers_ok gen s \<Longrightarrow> schedule_courses gen cs s = Inr s' \<Longrightarrow> ledgers_ok gen s'"
proof (induction cs arbitrary: s)
  case Nil
  then show ?case by simp
next
  case (Cons c cs)
  from Cons.prems(2) obtain s1 where
    1: "schedule_course gen c s = Inr s1" and 2: "schedule_courses gen cs s1 = Inr s'"
    by (auto split: sum.splits)
  from schedule_sessions_ok[OF refl Cons.prems(1) 1[unfolded schedule_course_def]]
  have "ledgers_ok gen s1" .
  from Cons.IH[OF this 2] show ?case .
qed

section \<open>Schedules returned by a run\<close>

lemma set_dict_keys [simp]: "set (dict_keys xs) = set xs"
  by (induction xs) auto

lemma distinct_dict_keys [simp]: "distinct (dict_keys xs)"
  by (induction xs) auto

lemma dict_keys_distinct: "distinct xs \<Longrightarrow> dict_keys xs = xs"
proof (induction xs)
  case Nil
  then show ?case by simp
next
  case (Cons x xs)
  then have "filter (\<lambda>y. y \<noteq> x) xs = xs" by (auto intro: filter_True)
  with Cons show ?case by simp
qed

lemma initial_state_ok: "ledgers_ok gen (initial_state gen g)"
  by (simp add: ledgers_ok_def initial_state_def new_ledger_def)

lemma run_schedule_final:
  assumes "run_schedule gen (initial_state gen g) = Inr (schedule, cfl, sessions)"
  shows "\<exists>s. ledgers_ok gen s \<and> schedule = collect_schedule gen s \<and>
           cfl = conflicts s @ teacher_conflicts gen s @ room_conflicts gen s @
                   frequency_conflicts gen s \<and>
           sessions = course_sessions s \<and>
           schedule_courses gen (sorted_courses gen)
             ((initial_state gen g)\<lparr>conflicts := [],
                course_sessions := map (\<lambda>k. (k, 0)) (dict_keys (map course_key (courses gen)))\<rparr>)
             = Inr s"
proof -
  let ?s1 = "(initial_state gen g)\<lparr>conflicts := [],
      course_sessions := map (\<lambda>k. (k, 0)) (dict_keys (map course_key (courses gen)))\<rparr>"
  from assms obtain s where s: "schedule_courses gen (sorted_courses gen) ?s1 = Inr s"
    and r: "schedule = collect_schedule gen s"
      "cfl = conflicts s @ teacher_conflicts gen s @ room_conflicts gen s @
                   frequency_conflicts gen s"
      "sessions = course_sessions s"
    by (auto simp: run_schedule_def Let_def split: sum.splits)
  have "ledgers_ok gen ?s1"
    by (simp add: ledgers_ok_def initial_state_def new_ledger_def)
  from schedule_courses_ok[OF this s] r s show ?thesis by blast
qed

lemma scan_reads_cell:
  assumes "run_schedule gen (initial_state gen g) = Inr (schedule, cfl, sessions)"
  shows "\<exists>s. schedule_courses gen (sorted_courses gen)
             ((initial_state gen g)\<lparr>conflicts := [],
                course_sessions := map (\<lambda>k. (k, 0)) (dict_keys (map course_key (courses gen)))\<rparr>)
             = Inr s \<and>
           (\<forall>n\<in>set (keys (class_schedule s)). \<forall>d\<in>set days. \<forall>t\<in>set (time_slots gen).
              lookup_cell (class_schedule s) n d t = Inr (cells (class_schedule s) n d t))"
proof -
  from run_schedule_final[OF assms] obtain s where ok: "ledgers_ok gen s"
    and sc: "schedule_courses gen (sorted_courses gen)
             ((initial_state gen g)\<lparr>conflicts := [],
                course_sessions := map (\<lambda>k. (k, 0)) (dict_keys (map course_key (courses gen)))\<rparr>)
             = Inr s" by blast
  from ok have "\<And>n d t. t \<in> set (time_slots gen) \<Longrightarrow> t \<in> slot_keys (class_schedule s) n d"
    unfolding ledgers_ok_def by blast
  then have "\<forall>n\<in>set (keys (class_schedule s)). \<forall>d\<in>set days. \<forall>t\<in>set (time_slots gen).
              lookup_cell (class_schedule s) n d t = Inr (cells (class_schedule s) n d t)"
    by (simp add: lookup_cell_def)
  with sc show ?thesis by blast
qed

lemma collect_schedule_mem:
  "a \<in> set (collect_schedule gen s) \<Longrightarrow>
     \<exists>cname d t. cells (class_schedule s) cname d t = Some a"
  by (auto simp: collect_schedule_def split: option.splits) metis

lemma distinct_concat_map:
  assumes "distinct xs" and "\<And>x. x \<in> set xs \<Longrightarrow> distinct (f x)"
    and "\<And>x y. x \<in> set xs \<Longrightarrow> y \<in> set xs \<Longrightarrow> x \<noteq> y \<Longrightarrow> set (f x) \<inter> set (f y) = {}"
  shows "distinct (concat (map f xs))"
  using assms
proof (induction xs)
  case Nil
  then show ?case by simp
next
  case (Cons x xs)
  have "distinct (concat (map f xs))"
    using Cons.prems by (intro Cons.IH) auto
  moreover have "set (f x) \<inter> set (f y) = {}" if "y \<in> set xs" for y
    using Cons.prems(1) that by (intro Cons.prems(3)) auto
  ultimately show ?case using Cons.prems(2)[of x] by auto
qed

lemma disjoint_by_key:
  assumes "\<And>a. a \<in> A \<Longrightarrow> k a = x" and "\<And>a. a \<in> B \<Longrightarrow> k a = y" and "x \<noteq> y"
  shows "A \<inter> B = {}"
  using assms by auto

lemma collect_schedule_distinct:
  assumes ok: "ledgers_ok gen s" and ts: "distinct (time_slots gen)"
  shows "distinct (collect_schedule gen s)"
proof -
  have cell: "cls a = cn \<and> day a = d \<and> time a = t"
    if "cells (class_schedule s) cn d t = Some a" for cn d t a
    using ok that unfolding ledgers_ok_def by blast
  let ?cellf = "\<lambda>cn d t. case cells (class_schedule s) cn d t of None \<Rightarrow> [] | Some a \<Rightarrow> [a]"
  let ?dayf = "\<lambda>cn d. concat (map (?cellf cn d) (time_slots gen))"
  let ?clsf = "\<lambda>cn. concat (map (?dayf cn) days)"
  have cellf: "cls a = cn \<and> day a = d \<and> time a = t" if "a \<in> set (?cellf cn d t)" for a cn d t
    using that cell by (auto split: option.splits)
  have dayf: "cls a = cn \<and> day a = d" if "a \<in> set (?dayf cn d)" for a cn d
    using that cellf by fastforce
  have clsf: "cls a = cn" if "a \<in> set (?clsf cn)" for a cn
    using that dayf by fastforce
  have d1: "distinct (?dayf cn d)" for cn d
  proof (rule distinct_concat_map[OF ts])
    show "distinct (?cellf cn d t)" for t by (simp split: option.splits)
    show "set (?cellf cn d x) \<inter> set (?cellf cn d y) = {}" if "x \<noteq> y" for x y
      by (rule disjoint_by_key[where k = time, OF _ _ that]) (use cellf in blast)+
  qed
  have dd: "distinct days" by (simp add: days_def)
  have d2: "distinct (?clsf cn)" for cn
  proof (rule distinct_concat_map[OF dd])
    show "distinct (?dayf cn d)" for d by (rule d1)
    show "set (?dayf cn x) \<inter> set (?dayf cn y) = {}" if "x \<noteq> y" for x y
      by (rule disjoint_by_key[where k = day, OF _ _ that]) (use dayf in blast)+
  qed
  have dk: "distinct (keys (class_schedule s))" using ok by (simp add: ledgers_ok_def)
  have "distinct (concat (map ?clsf (keys (class_schedule s))))"
  proof (rule distinct_concat_map[OF dk])
    show "distinct (?clsf cn)" for cn by (rule d2)
    show "set (?clsf x) \<inter> set (?clsf y) = {}" if "x \<noteq> y" for x y
      by (rule disjoint_by_key[where k = cls, OF _ _ that]) (use clsf in blast)+
  qed
  then show ?thesis by (simp add: collect_schedule_def)
qed

lemma filter_at_most_one:
  assumes "distinct xs" and "\<And>x y. x \<in> set xs \<Longrightarrow> y \<in> set xs \<Longrightarrow> P x \<Longrightarrow> P y \<Longrightarrow> x = y"
  shows "length (filter P xs) \<le> 1"
  using assms
proof (induction xs)
  case Nil
  then show ?case by simp
next
  case (Cons x xs)
  have ih: "length (filter P xs) \<le> 1" using Cons.prems by (intro Cons.IH) auto
  show ?case
  proof (cases "P x")
    case False
    with ih show ?thesis by simp
  next
    case True
    have "\<not> P y" if "y \<in> set xs" for y
      using Cons.prems(2)[of x y] Cons.prems(1) that True by auto
    then have "filter P xs = []" by (simp add: filter_empty_conv)
    with True show ?thesis by simp
  qed
qed

lemma classes_at_time_teacher:
  assumes "ledgers_ok gen s"
  shows "length (classes_at_time s teacher tname d t) \<le> 1"
  unfolding classes_at_time_def
proof (rule filter_at_most_one)
  show "distinct (keys (class_schedule s))" using assms by (simp add: ledgers_ok_def)
next
  fix x y
  assume "case cells (class_schedule s) x d t of None \<Rightarrow> False | Some a \<Rightarrow> teacher a = tname"
    and "case cells (class_schedule s) y d t of None \<Rightarrow> False | Some a \<Rightarrow> teacher a = tname"
  then obtain a b where
    a: "cells (class_schedule s) x d t = Some a" "teacher a = tname" and
    b: "cells (class_schedule s) y d t = Some b" "teacher b = tname"
    by (auto split: option.splits)
  from assms a(1) have "cls a = x" "cells (teacher_schedule s) (teacher a) d t = Some a"
    unfolding ledgers_ok_def by blast+
  moreover from assms b(1) have "cls b = y" "cells (teacher_schedule s) (teacher b) d t = Some b"
    unfolding ledgers_ok_def by blast+
  ultimately show "x = y" using a(2) b(2) by simp
qed

lemma classes_at_time_room:
  assumes "ledgers_ok gen s"
  shows "length (classes_at_time s room rname d t) \<le> 1"
  unfolding classes_at_time_def
proof (rule filter_at_most_one)
  show "distinct (keys (class_schedule s))" using assms by (simp add: ledgers_ok_def)
next
  fix x y
  assume "case cells (class_schedule s) x d t of None \<Rightarrow> False | Some a \<Rightarrow> room a = rname"
    and "case cells (class_schedule s) y d t of None \<Rightarrow> False | Some a \<Rightarrow> room a = rname"
  then obtain a b where
    a: "cells (class_schedule s) x d t = Some a" "room a = rname" and
    b: "cells (class_schedule s) y d t = Some b" "room b = rname"
    by (auto split: option.splits)
  from assms a(1) have "cls a = x" "cells (room_schedule s) (room a) d t = Some a"
    unfolding ledgers_ok_def by blast+
  moreover from assms b(1) have "cls b = y" "cells (room_schedule s) (room b) d t = Some b"
    unfolding ledgers_ok_def by blast+
  ultimately show "x = y" using a(2) b(2) by simp
qed

lemma teacher_conflicts_none: "ledgers_ok gen s \<Longrightarrow> teacher_conflicts gen s = []"
  using classes_at_time_teacher[of gen s]
  by (simp add: teacher_conflicts_def Let_def not_less[symmetric] del: not_less)

lemma room_conflicts_none: "ledgers_ok gen s \<Longrightarrow> room_conflicts gen s = []"
  using classes_at_time_room[of gen s]
  by (simp add: room_conflicts_def Let_def not_less[symmetric] del: not_less)

lemma frequency_conflicts_ctype:
  "x \<in> set (frequency_conflicts gen s) \<Longrightarrow> ctype x = ''Frequency Not Met''"
  by (auto simp: frequency_conflicts_def frequency_conflict_def Let_def split: if_splits)

lemma ledger_unique:
  assumes ok: "ledgers_ok gen s"
    and a: "cells (class_schedule s) cn d t = Some a"
    and b: "cells (class_schedule s) cn' d' t' = Some b"
    and same: "day a = day b" "time a = time b"
      "cls a = cls b \<or> teacher a = teacher b \<or> room a = room b"
  shows "a = b"
proof -
  from ok a have A: "cls a = cn" "day a = d" "time a = t"
    "cells (teacher_schedule s) (teacher a) d t = Some a"
    "cells (room_schedule s) (room a) d t = Some a"
    unfolding ledgers_ok_def by blast+
  from ok b have B: "cls b = cn'" "day b = d'" "time b = t'"
    "cells (teacher_schedule s) (teacher b) d' t' = Some b"
    "cells (room_schedule s) (room b) d' t' = Some b"
    unfolding ledgers_ok_def by blast+
  from same(1,2) A B have dt: "d' = d" "t' = t" by simp_all
  from same(3) show ?thesis
  proof (elim disjE)
    assume "cls a = cls b"
    with A B dt a b show ?thesis by simp
  next
    assume "teacher a = teacher b"
    with A(4) B(4) dt show ?thesis by simp
  next
    assume "room a = room b"
    with A(5) B(5) dt show ?thesis by simp
  qed
qed

text \<open>
  C1. In every schedule a run returns, two assignments on the same day and time slot
  that name the same class, the same teacher or the same room are one and the same
  assignment; when the time slots are pairwise different the returned list holds no
  assignment twice; and the returned conflict list holds no record of type
  \<^verbatim>\<open>Teacher Conflict\<close> or \<^verbatim>\<open>Room Conflict\<close>.
\<close>

theorem no_double_booking:
  assumes "generate_schedule gen (initial_state gen g) = Inr (schedule, cfl)"
  shows "(\<forall>a\<in>set schedule. \<forall>b\<in>set schedule.
            day a = day b \<and> time a = time b \<and>
            (cls a = cls b \<or> teacher a = teacher b \<or> room a = room b) \<longrightarrow> a = b) \<and>
         (distinct (time_slots gen) \<longrightarrow> distinct schedule) \<and>
         (\<forall>x\<in>set cfl. ctype x \<noteq> ''Teacher Conflict'' \<and> ctype x \<noteq> ''Room Conflict'')"
proof -
  from assms obtain sessions where
    "run_schedule gen (initial_state gen g) = Inr (schedule, cfl, sessions)"
    by (auto simp: generate_schedule_def split: sum.splits)
  from run_schedule_final[OF this] obtain s where
    ok: "ledgers_ok gen s" and sch: "schedule = collect_schedule gen s" and
    cfl: "cfl = conflicts s @ teacher_conflicts gen s @ room_conflicts gen s @
                   frequency_conflicts gen s"
    by blast
  have "a = b" if "a \<in> set schedule" "b \<in> set schedule" "day a = day b" "time a = time b"
    "cls a = cls b \<or> teacher a = teacher b \<or> room a = room b" for a b
  proof -
    from that(1,2) sch obtain cn d t cn' d' t' where
      "cells (class_schedule s) cn d t = Some a" "cells (class_schedule s) cn' d' t' = Some b"
      by (blast dest: collect_schedule_mem)
    from ledger_unique[OF ok this that(3,4,5)] show ?thesis .
  qed
  then have 1: "\<forall>a\<in>set schedule. \<forall>b\<in>set schedule.
            day a = day b \<and> time a = time b \<and>
            (cls a = cls b \<or> teacher a = teacher b \<or> room a = room b) \<longrightarrow> a = b"
    by blast
  have 2: "distinct (time_slots gen) \<longrightarrow> distinct schedule"
    using collect_schedule_distinct[OF ok] sch by simp
  have "ctype x \<noteq> ''Teacher Conflict'' \<and> ctype x \<noteq> ''Room Conflict''" if "x \<in> set cfl" for x
  proof -
    from that cfl have "x \<in> set (conflicts s) \<or> x \<in> set (frequency_conflicts gen s)"
      by (simp add: teacher_conflicts_none[OF ok] room_conflicts_none[OF ok])
    then have "ctype x = ''Unscheduled Session'' \<or> ctype x = ''Frequency Not Met''"
      using ok frequency_conflicts_ctype unfolding ledgers_ok_def by blast
    then show ?thesis by auto
  qed
  with 1 2 show ?thesis by blast
qed

theorem no_double_booking_witness:
  "generate_schedule
     \<lparr>teachers = [\<lparr>teacher_name = ''Ann''\<rparr>], rooms = [\<lparr>room_name = ''R1'', capacity = 30\<rparr>],
      classes = [\<lparr>class_name = ''9A'', class_size = 25\<rparr>],
      courses = [\<lparr>course_name = ''Math'', course_teacher = ''Ann'', course_class = ''9A'',
                  frequency = 1\<rparr>],
      time_slots = [''08:00-08:50'']\<rparr>
     (initial_state
       \<lparr>teachers = [\<lparr>teacher_name = ''Ann''\<rparr>], rooms = [\<lparr>room_name = ''R1'', capacity = 30\<rparr>],
        classes = [\<lparr>class_name = ''9A'', class_size = 25\<rparr>],
        courses = [\<lparr>course_name = ''Math'', course_teacher = ''Ann'', course_class = ''9A'',
                    frequency = 1\<rparr>],
        time_slots = [''08:00-08:50'']\<rparr> [])
   = Inr ([\<lparr>course = ''Math'', teacher = ''Ann'', room = ''R1'', cls = ''9A'', day = ''Tuesday'',
             time = ''08:00-08:50''\<rparr>], []) \<and>
   distinct [\<lparr>course = ''Math'', teacher = ''Ann'', room = ''R1'', cls = ''9A'', day = ''Tuesday'',
             time = ''08:00-08:50''\<rparr>]"
proof -
  have run: "generate_schedule
     \<lparr>teachers = [\<lparr>teacher_name = ''Ann''\<rparr>], rooms = [\<lparr>room_name = ''R1'', capacity = 30\<rparr>],
      classes = [\<lparr>class_name = ''9A'', class_size = 25\<rparr>],
      courses = [\<lparr>course_name = ''Math'', course_teacher = ''Ann'', course_class = ''9A'',
                  frequency = 1\<rparr>],
      time_slots = [''08:00-08:50'']\<rparr>
     (initial_state
       \<lparr>teachers = [\<lparr>teacher_name = ''Ann''\<rparr>], rooms = [\<lparr>room_name = ''R1'', capacity = 30\<rparr>],
        classes = [\<lparr>class_name = ''9A'', class_size = 25\<rparr>],
        courses = [\<lparr>course_name = ''Math'', course_teacher = ''Ann'', course_class = ''9A'',
                    frequency = 1\<rparr>],
        time_slots = [''08:00-08:50'']\<rparr> [])
   = Inr ([\<lparr>course = ''Math'', teacher = ''Ann'', room = ''R1'', cls = ''9A'', day = ''Tuesday'',
             time = ''08:00-08:50''\<rparr>], [])"
    by code_simp
  from no_double_booking[OF run] run show ?thesis by simp
qed








section \<open>The session tally\<close>

lemma bump_sessions_map_of:
  "map_of (bump_sessions k m) k' =
     (if k' = k then map_option (\<lambda>v. v + 1) (map_of m k') else map_of m k')"
  by (induction m) (auto simp: bump_sessions_def)

lemma try_time_slots_tally:
  "try_time_slots gen c csize d ts ad s = Inr (ok, ad', s') \<Longrightarrow>
     course_sessions s' =
       (if ok then bump_sessions (course_key c) (course_sessions s) else course_sessions s) \<and>
     conflicts s' = conflicts s"
proof (induction ts arbitrary: s)
  case Nil
  then show ?case by auto
next
  case (Cons t ts)
  from Cons.prems obtain room_opt g' where
    f: "find_available_room gen s csize d t = Inr (room_opt, g')"
    by (cases "find_available_room gen s csize d t") auto
  let ?s1 = "s\<lparr>rng := g'\<rparr>"
  have s1: "course_sessions ?s1 = course_sessions s" "conflicts ?s1 = conflicts s" by simp_all
  show ?case
  proof (cases "room_opt = None \<or> room_opt = Some []")
    case True
    with Cons.prems f have "try_time_slots gen c csize d ts ad ?s1 = Inr (ok, ad', s')"
      by (auto simp: Let_def)
    from Cons.IH[OF this] s1 show ?thesis by simp
  next
    case False
    then obtain rname where rn: "room_opt = Some rname" "rname \<noteq> []" by auto
    show ?thesis
    proof (cases "is_slot_available ?s1 (course_class c) (course_teacher c) rname d t")
      case (Inl e)
      with Cons.prems f rn show ?thesis by (simp add: Let_def)
    next
      case (Inr b)
      show ?thesis
      proof (cases b)
        case False
        with Inr Cons.prems f rn have "try_time_slots gen c csize d ts ad ?s1 = Inr (ok, ad', s')"
          by (simp add: Let_def)
        from Cons.IH[OF this] s1 show ?thesis by simp
      next
        case True
        with Inr Cons.prems f rn obtain s2 where
          a: "assign_time_slot ?s1 c (course_class c) (course_teacher c) rname d t = Inr s2"
          and s': "s' = s2\<lparr>course_sessions := bump_sessions (course_key c) (course_sessions s2)\<rparr>"
          and ok: "ok"
          by (auto simp: Let_def split: sum.splits)
        from assign_time_slot_Inr[OF a] have
          "course_sessions s2 = course_sessions s" "conflicts s2 = conflicts s" by simp_all
        with s' ok show ?thesis by simp
      qed
    qed
  qed
qed

lemma search_day_tally:
  assumes "search_day gen c csize d ad s = Inr (ok, ad', s')"
  shows "course_sessions s' =
       (if ok then bump_sessions (course_key c) (course_sessions s) else course_sessions s) \<and>
     conflicts s' = conflicts s"
proof -
  obtain slots g' where sh: "shuffle (time_slots gen) (rng s) = (slots, g')"
    by (cases "shuffle (time_slots gen) (rng s)")
  with assms have "try_time_slots gen c csize d slots ad (s\<lparr>rng := g'\<rparr>) = Inr (ok, ad', s')"
    by (simp add: search_day_def)
  from try_time_slots_tally[OF this] show ?thesis by simp
qed

lemma try_days_tally:
  "try_days gen c csize ds ad s = Inr (ok, ad', s') \<Longrightarrow>
     course_sessions s' =
       (if ok then bump_sessions (course_key c) (course_sessions s) else course_sessions s) \<and>
     conflicts s' = conflicts s"
proof (induction ds arbitrary: s ad)
  case Nil
  then show ?case by auto
next
  case (Cons d ds)
  show ?case
  proof (cases "d \<in> ad \<and> card ad < length days")
    case True
    with Cons.prems have "try_days gen c csize ds ad s = Inr (ok, ad', s')" by simp
    from Cons.IH[OF this] show ?thesis .
  next
    case False
    show ?thesis
    proof (cases "search_day gen c csize d ad s")
      case (Inl e)
      with False Cons.prems show ?thesis by auto
    next
      case (Inr res)
      obtain ok1 ad1 s1 where res: "res = (ok1, ad1, s1)" by (cases res)
      note t1 = search_day_tally[OF Inr[unfolded res]]
      show ?thesis
      proof (cases ok1)
        case True
        with False Cons.prems Inr res have "s' = s1" "ok" by auto
        with t1 True show ?thesis by simp
      next
        case F: False
        with False Cons.prems Inr res have "try_days gen c csize ds ad1 s1 = Inr (ok, ad', s')"
          by auto
        from Cons.IH[OF this] t1 F show ?thesis by simp
      qed
    qed
  qed
qed

lemma bump_pow_map_of:
  "map_of ((bump_sessions k ^^ j) m) k' =
     (if k' = k then map_option (\<lambda>v. v + int j) (map_of m k') else map_of m k')"
proof (induction j)
  case 0
  then show ?case by (simp add: option.map_ident)
next
  case (Suc j)
  show ?case
  proof (cases "k' = k")
    case True
    have "(\<lambda>v. v + 1) \<circ> (\<lambda>v. v + int j) = (\<lambda>v::int. v + int (Suc j))" by auto
    with Suc True show ?thesis
      by (simp add: bump_sessions_map_of option.map_comp)
  next
    case False
    with Suc show ?thesis by (simp add: bump_sessions_map_of)
  qed
qed

lemma schedule_sessions_tally:
  "schedule_sessions gen c csize n ad s = Inr s' \<Longrightarrow>
     \<exists>j\<le>n. course_sessions s' = (bump_sessions (course_key c) ^^ j) (course_sessions s) \<and>
            conflicts s' = conflicts s @ replicate (n - j) (unscheduled_conflict c)"
proof (induction n arbitrary: s ad)
  case 0
  then show ?case by simp
next
  case (Suc n)
  obtain ds g' where sh: "shuffle days (rng s) = (ds, g')" by (cases "shuffle days (rng s)")
  show ?case
  proof (cases "try_days gen c csize ds ad (s\<lparr>rng := g'\<rparr>)")
    case (Inl e)
    with Suc.prems sh show ?thesis by simp
  next
    case (Inr res)
    obtain ok1 ad1 s1 where res: "res = (ok1, ad1, s1)" by (cases res)
    from try_days_tally[OF Inr[unfolded res]] have
      t1: "course_sessions s1 =
             (if ok1 then bump_sessions (course_key c) (course_sessions s) else course_sessions s)"
          "conflicts s1 = conflicts s" by simp_all
    let ?s2 = "if ok1 then s1 else s1\<lparr>conflicts := conflicts s1 @ [unscheduled_conflict c]\<rparr>"
    from Suc.prems sh Inr res have "schedule_sessions gen c csize n ad1 ?s2 = Inr s'"
      by simp
    from Suc.IH[OF this] obtain j where j: "j \<le> n"
      "course_sessions s' = (bump_sessions (course_key c) ^^ j) (course_sessions ?s2)"
      "conflicts s' = conflicts ?s2 @ replicate (n - j) (unscheduled_conflict c)" by blast
    show ?thesis
    proof (cases ok1)
      case True
      with j t1 have "course_sessions s' = (bump_sessions (course_key c) ^^ Suc j) (course_sessions s)"
        "conflicts s' = conflicts s @ replicate (Suc n - Suc j) (unscheduled_conflict c)"
        by (simp_all add: funpow_swap1)
      with j(1) show ?thesis by (intro exI[of _ "Suc j"]) simp
    next
      case False
      with j t1 have "course_sessions s' = (bump_sessions (course_key c) ^^ j) (course_sessions s)"
        "conflicts s' = conflicts s @ replicate (Suc n - j) (unscheduled_conflict c)"
        by (simp_all add: Suc_diff_le replicate_append_same)
      with j(1) show ?thesis by (intro exI[of _ j]) simp
    qed
  qed
qed

lemma schedule_course_tally:
  assumes "schedule_course gen c s = Inr s'"
  shows "(\<exists>j\<le>frequency c. map_of (course_sessions s') (course_key c) =
            map_option (\<lambda>v. v + int j) (map_of (course_sessions s) (course_key c))) \<and>
         (\<forall>k. k \<noteq> course_key c \<longrightarrow> map_of (course_sessions s') k = map_of (course_sessions s) k)"
proof -
  from schedule_sessions_tally[OF assms[unfolded schedule_course_def]] obtain j where
    "j \<le> frequency c"
    "course_sessions s' = (bump_sessions (course_key c) ^^ j) (course_sessions s)" by blast
  then show ?thesis by (auto simp: bump_pow_map_of)
qed

lemma schedule_courses_tally:
  "distinct (map course_key cs) \<Longrightarrow> schedule_courses gen cs s = Inr s' \<Longrightarrow>
     (\<forall>c\<in>set cs. \<exists>j\<le>frequency c. map_of (course_sessions s') (course_key c) =
            map_option (\<lambda>v. v + int j) (map_of (course_sessions s) (course_key c))) \<and>
     (\<forall>k. k \<notin> course_key ` set cs \<longrightarrow> map_of (course_sessions s') k = map_of (course_sessions s) k)"
proof (induction cs arbitrary: s)
  case Nil
  then show ?case by simp
next
  case (Cons c cs)
  from Cons.prems(2) obtain s1 where
    1: "schedule_course gen c s = Inr s1" and 2: "schedule_courses gen cs s1 = Inr s'"
    by (auto split: sum.splits)
  from Cons.prems(1) have d: "distinct (map course_key cs)" and
    notin: "course_key c \<notin> course_key ` set cs" by auto
  note t1 = schedule_course_tally[OF 1]
  note t2 = Cons.IH[OF d 2]
  from t1 obtain j where j: "j \<le> frequency c"
    "map_of (course_sessions s1) (course_key c) =
       map_option (\<lambda>v. v + int j) (map_of (course_sessions s) (course_key c))" by blast
  from t2 notin have "map_of (course_sessions s') (course_key c) = map_of (course_sessions s1) (course_key c)"
    by blast
  with j have head: "\<exists>j\<le>frequency c. map_of (course_sessions s') (course_key c) =
            map_option (\<lambda>v. v + int j) (map_of (course_sessions s) (course_key c))" by auto
  have tail: "\<exists>j\<le>frequency c'. map_of (course_sessions s') (course_key c') =
            map_option (\<lambda>v. v + int j) (map_of (course_sessions s) (course_key c'))"
    if "c' \<in> set cs" for c'
  proof -
    from that notin have "course_key c' \<noteq> course_key c" by (metis imageI)
    with t1 have eq: "map_of (course_sessions s1) (course_key c') = map_of (course_sessions s) (course_key c')"
      by blast
    from t2 that obtain j' where "j' \<le> frequency c'"
      "map_of (course_sessions s') (course_key c') =
         map_option (\<lambda>v. v + int j') (map_of (course_sessions s1) (course_key c'))" by blast
    with eq show ?thesis by (intro exI[of _ j']) simp
  qed
  have rest: "map_of (course_sessions s') k = map_of (course_sessions s) k"
    if "k \<notin> course_key ` set (c # cs)" for k
  proof -
    from that have k: "k \<noteq> course_key c" "k \<notin> course_key ` set cs" by auto
    from t2 k(2) have "map_of (course_sessions s') k = map_of (course_sessions s1) k" by blast
    also from t1 k(1) have "\<dots> = map_of (course_sessions s) k" by blast
    finally show ?thesis .
  qed
  from head tail have "\<forall>c'\<in>set (c # cs). \<exists>j\<le>frequency c'.
      map_of (course_sessions s') (course_key c') =
        map_option (\<lambda>v. v + int j) (map_of (course_sessions s) (course_key c'))"
    by simp
  with rest show ?case by blast
qed

lemma required_frequency_distinct:
  "distinct (map course_key cs) \<Longrightarrow> c \<in> set cs \<Longrightarrow>
     required_frequency cs (course_key c) = int (frequency c)"
proof (induction cs)
  case Nil
  then show ?case by simp
next
  case (Cons x xs)
  show ?case
  proof (cases "c = x")
    case True
    then show ?thesis by (simp add: course_key_def)
  next
    case False
    with Cons.prems have "c \<in> set xs" "course_key x \<noteq> course_key c" by (auto simp: image_iff)
    with Cons show ?thesis by (auto simp: course_key_def)
  qed
qed

lemma frequency_conflicts_mem:
  assumes "(k, v) \<in> set (course_sessions s)" and "v < required_frequency (courses gen) k"
  shows "frequency_conflict k v (required_frequency (courses gen) k) \<in>
           set (frequency_conflicts gen s)"
proof -
  have "frequency_conflict k v (required_frequency (courses gen) k) \<in>
      set ((\<lambda>(k, assigned_sessions).
       let required_sessions = required_frequency (courses gen) k in
       if assigned_sessions < required_sessions
       then [frequency_conflict k assigned_sessions required_sessions]
       else []) (k, v))"
    using assms(2) by simp
  with assms(1) show ?thesis unfolding frequency_conflicts_def set_concat set_map by blast
qed

lemma sorted_courses_set [simp]: "set (sorted_courses gen) = set (courses gen)"
  by (simp add: sorted_courses_def)

lemma sorted_courses_distinct:
  "distinct (map course_key (courses gen)) \<Longrightarrow> distinct (map course_key (sorted_courses gen))"
proof -
  have "mset (map course_key (sorted_courses gen)) = mset (map course_key (courses gen))"
    by (simp add: sorted_courses_def)
  then show "distinct (map course_key (courses gen)) \<Longrightarrow> distinct (map course_key (sorted_courses gen))"
    by (metis mset_eq_imp_distinct_iff)
qed

lemma initial_tally: "k \<in> set ks \<Longrightarrow> map_of (map (\<lambda>k. (k, 0::int)) ks) k = Some 0"
  by (induction ks) auto

text \<open>
  C2. When the courses are uniquely identified by (name, class), the session count
  tallied for a course is at most its required frequency, and when it is strictly
  less the returned conflict list holds the \<^verbatim>\<open>Frequency Not Met\<close> record of that
  (name, class) pair with the fulfilled and the required count. The conflict list is
  the one \<^verbatim>\<open>generate_schedule\<close> returns.
\<close>

theorem tally_within_frequency:
  assumes run: "run_schedule gen (initial_state gen g) = Inr (schedule, cfl, sessions)"
    and uniq: "distinct (map course_key (courses gen))"
    and c: "c \<in> set (courses gen)"
  shows "\<exists>n. map_of sessions (course_key c) = Some n \<and> 0 \<le> n \<and> n \<le> int (frequency c) \<and>
           (n < int (frequency c) \<longrightarrow>
              frequency_conflict (course_key c) n (int (frequency c)) \<in> set cfl) \<and>
           generate_schedule gen (initial_state gen g) = Inr (schedule, cfl)"
proof -
  let ?s1 = "(initial_state gen g)\<lparr>conflicts := [],
      course_sessions := map (\<lambda>k. (k, 0)) (dict_keys (map course_key (courses gen)))\<rparr>"
  from run_schedule_final[OF run] obtain s where
    cfl: "cfl = conflicts s @ teacher_conflicts gen s @ room_conflicts gen s @
                   frequency_conflicts gen s"
    and ses: "sessions = course_sessions s"
    and sc: "schedule_courses gen (sorted_courses gen) ?s1 = Inr s"
    by blast
  from c have c': "c \<in> set (sorted_courses gen)" by simp
  from schedule_courses_tally[OF sorted_courses_distinct[OF uniq] sc] c' obtain j where
    j: "j \<le> frequency c"
       "map_of (course_sessions s) (course_key c) =
          map_option (\<lambda>v. v + int j) (map_of (course_sessions ?s1) (course_key c))"
    by blast
  from c have "course_key c \<in> set (dict_keys (map course_key (courses gen)))" by simp
  from initial_tally[OF this] j(2) have n: "map_of (course_sessions s) (course_key c) = Some (int j)"
    by simp
  have "frequency_conflict (course_key c) (int j) (int (frequency c)) \<in> set cfl"
    if "int j < int (frequency c)"
  proof -
    from n have "(course_key c, int j) \<in> set (course_sessions s)" by (rule map_of_SomeD)
    from frequency_conflicts_mem[OF this, of gen] that
    show ?thesis by (simp add: required_frequency_distinct[OF uniq c] cfl)
  qed
  moreover have "generate_schedule gen (initial_state gen g) = Inr (schedule, cfl)"
    using run by (simp add: generate_schedule_def)
  ultimately show ?thesis using n j(1) ses by auto
qed

theorem tally_within_frequency_witness:
  "run_schedule
     \<lparr>teachers = [\<lparr>teacher_name = ''Ann''\<rparr>], rooms = [\<lparr>room_name = ''Closet'', capacity = 10\<rparr>],
      classes = [\<lparr>class_name = ''9A'', class_size = 25\<rparr>],
      courses = [\<lparr>course_name = ''Math'', course_teacher = ''Ann'', course_class = ''9A'',
                  frequency = 2\<rparr>],
      time_slots = [''08:00-08:50'']\<rparr>
     (initial_state
       \<lparr>teachers = [\<lparr>teacher_name = ''Ann''\<rparr>], rooms = [\<lparr>room_name = ''Closet'', capacity = 10\<rparr>],
      classes = [\<lparr>class_name = ''9A'', class_size = 25\<rparr>],
      courses = [\<lparr>course_name = ''Math'', course_teacher = ''Ann'', course_class = ''9A'',
                  frequency = 2\<rparr>],
      time_slots = [''08:00-08:50'']\<rparr> [])
   = Inr ([], [\<lparr>ctype = ''Unscheduled Session'', cday = ''N/A'', ctime = ''N/A'',
          description = ''Could not schedule a session for Math (Class: 9A, Teacher: Ann)''\<rparr>,
        \<lparr>ctype = ''Unscheduled Session'', cday = ''N/A'', ctime = ''N/A'',
          description = ''Could not schedule a session for Math (Class: 9A, Teacher: Ann)''\<rparr>,
        \<lparr>ctype = ''Frequency Not Met'', cday = ''N/A'', ctime = ''N/A'',
          description = ''Course Math (Class: 9A) was scheduled for 0/2 required sessions''\<rparr>],
       [((''Math'', ''9A''), 0)]) \<and>
   frequency_conflict (''Math'', ''9A'') 0 2 \<in> set [\<lparr>ctype = ''Unscheduled Session'', cday = ''N/A'', ctime = ''N/A'',
          description = ''Could not schedule a session for Math (Class: 9A, Teacher: Ann)''\<rparr>,
        \<lparr>ctype = ''Unscheduled Session'', cday = ''N/A'', ctime = ''N/A'',
          description = ''Could not schedule a session for Math (Class: 9A, Teacher: Ann)''\<rparr>,
        \<lparr>ctype = ''Frequency Not Met'', cday = ''N/A'', ctime = ''N/A'',
          description = ''Course Math (Class: 9A) was scheduled for 0/2 required sessions''\<rparr>]"
proof -
  have run: "run_schedule
     \<lparr>teachers = [\<lparr>teacher_name = ''Ann''\<rparr>], rooms = [\<lparr>room_name = ''Closet'', capacity = 10\<rparr>],
      classes = [\<lparr>class_name = ''9A'', class_size = 25\<rparr>],
      courses = [\<lparr>course_name = ''Math'', course_teacher = ''Ann'', course_class = ''9A'',
                  frequency = 2\<rparr>],
      time_slots = [''08:00-08:50'']\<rparr>
     (initial_state
       \<lparr>teachers = [\<lparr>teacher_name = ''Ann''\<rparr>], rooms = [\<lparr>room_name = ''Closet'', capacity = 10\<rparr>],
      classes = [\<lparr>class_name = ''9A'', class_size = 25\<rparr>],
      courses = [\<lparr>course_name = ''Math'', course_teacher = ''Ann'', course_class = ''9A'',
                  frequency = 2\<rparr>],
      time_slots = [''08:00-08:50'']\<rparr> [])
   = Inr ([], [\<lparr>ctype = ''Unscheduled Session'', cday = ''N/A'', ctime = ''N/A'',
          description = ''Could not schedule a session for Math (Class: 9A, Teacher: Ann)''\<rparr>,
        \<lparr>ctype = ''Unscheduled Session'', cday = ''N/A'', ctime = ''N/A'',
          description = ''Could not schedule a session for Math (Class: 9A, Teacher: Ann)''\<rparr>,
        \<lparr>ctype = ''Frequency Not Met'', cday = ''N/A'', ctime = ''N/A'',
          description = ''Course Math (Class: 9A) was scheduled for 0/2 required sessions''\<rparr>],
       [((''Math'', ''9A''), 0)])"
    by code_simp
  have uniq: "distinct (map course_key (courses \<lparr>teachers = [\<lparr>teacher_name = ''Ann''\<rparr>], rooms = [\<lparr>room_name = ''Closet'', capacity = 10\<rparr>],
      classes = [\<lparr>class_name = ''9A'', class_size = 25\<rparr>],
      courses = [\<lparr>course_name = ''Math'', course_teacher = ''Ann'', course_class = ''9A'',
                  frequency = 2\<rparr>],
      time_slots = [''08:00-08:50'']\<rparr>))"
    by simp
  have c: "\<lparr>course_name = ''Math'', course_teacher = ''Ann'', course_class = ''9A'',
      frequency = 2\<rparr> \<in> set (courses \<lparr>teachers = [\<lparr>teacher_name = ''Ann''\<rparr>], rooms = [\<lparr>room_name = ''Closet'', capacity = 10\<rparr>],
      classes = [\<lparr>class_name = ''9A'', class_size = 25\<rparr>],
      courses = [\<lparr>course_name = ''Math'', course_teacher = ''Ann'', course_class = ''9A'',
                  frequency = 2\<rparr>],
      time_slots = [''08:00-08:50'']\<rparr>)"
    by simp
  from tally_within_frequency[OF run uniq c] run show ?thesis
    by (simp add: course_key_def)
qed

section \<open>A run on an empty grid\<close>

lemma search_day_no_slots:
  "time_slots gen = [] \<Longrightarrow> search_day gen c csize d ad s = Inr (False, ad, s)"
  by (simp add: search_day_def shuffle_nil)

lemma try_days_no_slots:
  "time_slots gen = [] \<Longrightarrow> try_days gen c csize ds ad s = Inr (False, ad, s)"
  by (induction ds) (simp_all add: search_day_no_slots)

lemma schedule_sessions_no_slots:
  assumes "time_slots gen = []"
  shows "\<exists>g'. schedule_sessions gen c csize n ad s =
           Inr (s\<lparr>conflicts := conflicts s @ replicate n (unscheduled_conflict c), rng := g'\<rparr>)"
proof (induction n arbitrary: s)
  case 0
  show ?case by (intro exI[of _ "rng s"]) simp
next
  case (Suc n)
  obtain ds g1 where sh: "shuffle days (rng s) = (ds, g1)" by (cases "shuffle days (rng s)")
  let ?s2 = "s\<lparr>rng := g1, conflicts := conflicts s @ [unscheduled_conflict c]\<rparr>"
  from Suc[of ?s2] obtain g' where
    "schedule_sessions gen c csize n ad ?s2 =
       Inr (?s2\<lparr>conflicts := conflicts ?s2 @ replicate n (unscheduled_conflict c), rng := g'\<rparr>)"
    by blast
  then have "schedule_sessions gen c csize (Suc n) ad s =
      Inr (s\<lparr>conflicts := conflicts s @ replicate (Suc n) (unscheduled_conflict c), rng := g'\<rparr>)"
    using sh by (simp add: try_days_no_slots[OF assms] replicate_append_same)
  then show ?case by blast
qed

lemma schedule_courses_no_slots:
  assumes "time_slots gen = []"
  shows "\<exists>g'. schedule_courses gen cs s =
           Inr (s\<lparr>conflicts := conflicts s @
                    concat (map (\<lambda>c. replicate (frequency c) (unscheduled_conflict c)) cs),
                  rng := g'\<rparr>)"
proof (induction cs arbitrary: s)
  case Nil
  show ?case by (intro exI[of _ "rng s"]) simp
next
  case (Cons c cs)
  from schedule_sessions_no_slots[OF assms] obtain g1 where
    1: "schedule_course gen c s =
          Inr (s\<lparr>conflicts := conflicts s @ replicate (frequency c) (unscheduled_conflict c),
                 rng := g1\<rparr>)"
    unfolding schedule_course_def by blast
  let ?s1 = "s\<lparr>conflicts := conflicts s @ replicate (frequency c) (unscheduled_conflict c),
                 rng := g1\<rparr>"
  from Cons[of ?s1] obtain g' where
    "schedule_courses gen cs ?s1 =
       Inr (?s1\<lparr>conflicts := conflicts ?s1 @
                    concat (map (\<lambda>c. replicate (frequency c) (unscheduled_conflict c)) cs),
                  rng := g'\<rparr>)" by blast
  with 1 have "schedule_courses gen (c # cs) s =
      Inr (s\<lparr>conflicts := conflicts s @
                    concat (map (\<lambda>c. replicate (frequency c) (unscheduled_conflict c)) (c # cs)),
                  rng := g'\<rparr>)"
    by simp
  then show ?case by blast
qed

lemma concat_map_Nil: "concat (map (\<lambda>x. []) xs) = []"
  by (induction xs) simp_all

lemma generate_schedule_no_slots:
  assumes "time_slots gen = []"
  shows "generate_schedule gen (initial_state gen g) =
     Inr ([],
       concat (map (\<lambda>c. replicate (frequency c) (unscheduled_conflict c)) (sorted_courses gen)) @
       concat (map (\<lambda>k. if 0 < required_frequency (courses gen) k
                         then [frequency_conflict k 0 (required_frequency (courses gen) k)]
                         else [])
                 (dict_keys (map course_key (courses gen)))))"
proof -
  let ?s1 = "(initial_state gen g)\<lparr>conflicts := [],
      course_sessions := map (\<lambda>k. (k, 0)) (dict_keys (map course_key (courses gen)))\<rparr>"
  from schedule_courses_no_slots[OF assms, of "sorted_courses gen" ?s1] obtain g' where
    sc: "schedule_courses gen (sorted_courses gen) ?s1 =
      Inr (?s1\<lparr>conflicts := conflicts ?s1 @
                    concat (map (\<lambda>c. replicate (frequency c) (unscheduled_conflict c))
                      (sorted_courses gen)),
                  rng := g'\<rparr>)" by blast
  let ?s2 = "?s1\<lparr>conflicts := conflicts ?s1 @
                    concat (map (\<lambda>c. replicate (frequency c) (unscheduled_conflict c))
                      (sorted_courses gen)),
                  rng := g'\<rparr>"
  have 1: "collect_schedule gen ?s2 = []"
    by (simp add: collect_schedule_def assms concat_map_Nil)
  have 2: "teacher_conflicts gen ?s2 = []"
    by (simp add: teacher_conflicts_def assms concat_map_Nil)
  have 3: "room_conflicts gen ?s2 = []"
    by (simp add: room_conflicts_def assms concat_map_Nil)
  have 4: "frequency_conflicts gen ?s2 =
      concat (map (\<lambda>k. if 0 < required_frequency (courses gen) k
                         then [frequency_conflict k 0 (required_frequency (courses gen) k)]
                         else [])
                 (dict_keys (map course_key (courses gen))))"
    by (simp add: frequency_conflicts_def Let_def comp_def)
  have 5: "conflicts ?s2 =
      concat (map (\<lambda>c. replicate (frequency c) (unscheduled_conflict c)) (sorted_courses gen))"
    by (simp add: initial_state_def)
  show ?thesis
    unfolding generate_schedule_def run_schedule_def Let_def sc
    by (simp only: 1 2 3 4 5 sum.case prod.case append_Nil)
qed

lemma frequency_conflicts_distinct:
  assumes "distinct (map course_key cs)"
  shows "concat (map (\<lambda>k. if 0 < required_frequency cs k
                         then [frequency_conflict k 0 (required_frequency cs k)]
                         else [])
                 (dict_keys (map course_key cs))) =
         map (\<lambda>c. frequency_conflict (course_key c) 0 (int (frequency c)))
           (filter (\<lambda>c. 0 < frequency c) cs)"
proof -
  have "concat (map (\<lambda>k. if 0 < required_frequency cs k
                         then [frequency_conflict k 0 (required_frequency cs k)]
                         else []) (map course_key xs)) =
         map (\<lambda>c. frequency_conflict (course_key c) 0 (int (frequency c)))
           (filter (\<lambda>c. 0 < frequency c) xs)"
    if "set xs \<subseteq> set cs" for xs
    using that
  proof (induction xs)
    case Nil
    then show ?case by simp
  next
    case (Cons x xs)
    then have "x \<in> set cs" by simp
    from required_frequency_distinct[OF assms this] Cons show ?case by simp
  qed
  from this[of cs] show ?thesis by (simp add: dict_keys_distinct[OF assms])
qed

text \<open>
  C10 as stated fails when two courses share their (name, class) pair: the tally and
  the final scan are keyed by that pair, so the two courses get at most one
  \<^verbatim>\<open>Frequency Not Met\<close> record between them, decided by and reporting the
  frequency of the first-listed one. With frequencies 1 and 3, four sessions are
  reported unscheduled and the one record says \<^verbatim>\<open>0/1\<close>; with frequencies 0 and 2,
  two sessions are reported unscheduled and no record is emitted, although a course
  of positive frequency got no session.
\<close>

theorem empty_grid_shared_key_counterexample:
  "schedule_once [\<lparr>teacher_name = ''Ann''\<rparr>] [\<lparr>room_name = ''R1'', capacity = 30\<rparr>]
      [\<lparr>class_name = ''9A'', class_size = 25\<rparr>]
      [\<lparr>course_name = ''Math'', course_teacher = ''Ann'', course_class = ''9A'', frequency = 1\<rparr>,
       \<lparr>course_name = ''Math'', course_teacher = ''Ann'', course_class = ''9A'', frequency = 3\<rparr>]
      \<lparr>start_time = \<lparr>hour = 8, minute = 0\<rparr>,
      end_time = \<lparr>hour = 8, minute = 30\<rparr>, period_length = 50, break_length = 10,
      lunch_period = ''No lunch'', lunch_duration = 30\<rparr> [4, 2, 7] =
     Some (Inr ([],
       [\<lparr>ctype = ''Unscheduled Session'', cday = ''N/A'', ctime = ''N/A'',
          description = ''Could not schedule a session for Math (Class: 9A, Teacher: Ann)''\<rparr>,
        \<lparr>ctype = ''Unscheduled Session'', cday = ''N/A'', ctime = ''N/A'',
          description = ''Could not schedule a session for Math (Class: 9A, Teacher: Ann)''\<rparr>,
        \<lparr>ctype = ''Unscheduled Session'', cday = ''N/A'', ctime = ''N/A'',
          description = ''Could not schedule a session for Math (Class: 9A, Teacher: Ann)''\<rparr>,
        \<lparr>ctype = ''Unscheduled Session'', cday = ''N/A'', ctime = ''N/A'',
          description = ''Could not schedule a session for Math (Class: 9A, Teacher: Ann)''\<rparr>,
        \<lparr>ctype = ''Frequency Not Met'', cday = ''N/A'', ctime = ''N/A'',
          description = ''Course Math (Class: 9A) was scheduled for 0/1 required sessions''\<rparr>])) \<and>
   schedule_once [\<lparr>teacher_name = ''Ann''\<rparr>] [\<lparr>room_name = ''R1'', capacity = 30\<rparr>]
      [\<lparr>class_name = ''9A'', class_size = 25\<rparr>]
      [\<lparr>course_name = ''Math'', course_teacher = ''Ann'', course_class = ''9A'', frequency = 0\<rparr>,
       \<lparr>course_name = ''Math'', course_teacher = ''Ann'', course_class = ''9A'', frequency = 2\<rparr>]
      \<lparr>start_time = \<lparr>hour = 8, minute = 0\<rparr>,
      end_time = \<lparr>hour = 8, minute = 30\<rparr>, period_length = 50, break_length = 10,
      lunch_period = ''No lunch'', lunch_duration = 30\<rparr> [4, 2, 7] =
     Some (Inr ([],
       [\<lparr>ctype = ''Unscheduled Session'', cday = ''N/A'', ctime = ''N/A'',
          description = ''Could not schedule a session for Math (Class: 9A, Teacher: Ann)''\<rparr>,
        \<lparr>ctype = ''Unscheduled Session'', cday = ''N/A'', ctime = ''N/A'',
          description = ''Could not schedule a session for Math (Class: 9A, Teacher: Ann)''\<rparr>]))"
  by code_simp

text \<open>
  C10, amended. When the grid admits no slot, a run raises no error and returns no
  assignment; its conflict list is one \<^verbatim>\<open>Unscheduled Session\<close> record for each
  required session of every course (courses in sorted order), followed by one
  \<^verbatim>\<open>Frequency Not Met\<close> record \<^verbatim>\<open>0/required\<close> for every distinct
  (name, class) pair whose first-listed course has a positive frequency. When the
  courses are uniquely identified by (name, class), that is one record for every
  course with a positive required frequency.
\<close>

theorem empty_grid_run:
  assumes "minutes_of (end_time opts) < minutes_of (start_time opts) + period_length opts"
  shows "schedule_once ts rs cs crs opts g =
     Some (Inr ([],
       concat (map (\<lambda>c. replicate (frequency c) (unscheduled_conflict c))
         (sort_key (\<lambda>x. (- int (frequency x), course_name x)) crs)) @
       concat (map (\<lambda>k. if 0 < required_frequency crs k
                         then [frequency_conflict k 0 (required_frequency crs k)]
                         else [])
                 (dict_keys (map course_key crs))))) \<and>
     (distinct (map course_key crs) \<longrightarrow>
        concat (map (\<lambda>k. if 0 < required_frequency crs k
                         then [frequency_conflict k 0 (required_frequency crs k)]
                         else [])
                 (dict_keys (map course_key crs))) =
        map (\<lambda>c. frequency_conflict (course_key c) 0 (int (frequency c)))
          (filter (\<lambda>c. 0 < frequency c) crs))"
proof -
  from assms have slots: "generate_time_slots opts = Some []"
    by (simp add: generate_time_slots_def generate_slots_def slot_loop_empty)
  let ?gen = "\<lparr>teachers = ts, rooms = rs, classes = cs, courses = crs, time_slots = []\<rparr>"
  have "schedule_once ts rs cs crs opts g = Some (generate_schedule ?gen (initial_state ?gen g))"
    by (simp add: schedule_once_def make_generator_def slots)
  also have "generate_schedule ?gen (initial_state ?gen g) =
     Inr ([],
       concat (map (\<lambda>c. replicate (frequency c) (unscheduled_conflict c))
         (sort_key (\<lambda>x. (- int (frequency x), course_name x)) crs)) @
       concat (map (\<lambda>k. if 0 < required_frequency crs k
                         then [frequency_conflict k 0 (required_frequency crs k)]
                         else [])
                 (dict_keys (map course_key crs))))"
    using generate_schedule_no_slots[of ?gen g] by (simp add: sorted_courses_def cong: if_cong)
  finally show ?thesis using frequency_conflicts_distinct[of crs] by blast
qed

theorem empty_grid_run_witness:
  "schedule_once [\<lparr>teacher_name = ''Ann''\<rparr>] [\<lparr>room_name = ''R1'', capacity = 30\<rparr>]
      [\<lparr>class_name = ''9A'', class_size = 25\<rparr>]
      [\<lparr>course_name = ''Math'', course_teacher = ''Ann'', course_class = ''9A'', frequency = 1\<rparr>]
      \<lparr>start_time = \<lparr>hour = 8, minute = 0\<rparr>,
      end_time = \<lparr>hour = 8, minute = 30\<rparr>, period_length = 50, break_length = 10,
      lunch_period = ''No lunch'', lunch_duration = 30\<rparr> [] =
     Some (Inr ([],
       [\<lparr>ctype = ''Unscheduled Session'', cday = ''N/A'', ctime = ''N/A'',
          description = ''Could not schedule a session for Math (Class: 9A, Teacher: Ann)''\<rparr>,
        \<lparr>ctype = ''Frequency Not Met'', cday = ''N/A'', ctime = ''N/A'',
          description = ''Course Math (Class: 9A) was scheduled for 0/1 required sessions''\<rparr>]))"
proof -
  have e: "minutes_of (end_time \<lparr>start_time = \<lparr>hour = 8, minute = 0\<rparr>,
      end_time = \<lparr>hour = 8, minute = 30\<rparr>, period_length = 50, break_length = 10,
      lunch_period = ''No lunch'', lunch_duration = 30\<rparr>)
      < minutes_of (start_time \<lparr>start_time = \<lparr>hour = 8, minute = 0\<rparr>,
      end_time = \<lparr>hour = 8, minute = 30\<rparr>, period_length = 50, break_length = 10,
      lunch_period = ''No lunch'', lunch_duration = 30\<rparr>) +
        period_length \<lparr>start_time = \<lparr>hour = 8, minute = 0\<rparr>,
      end_time = \<lparr>hour = 8, minute = 30\<rparr>, period_length = 50, break_length = 10,
      lunch_period = ''No lunch'', lunch_duration = 30\<rparr>"
    by (simp add: minutes_of_def)
  have d: "distinct (map course_key
      [\<lparr>course_name = ''Math'', course_teacher = ''Ann'', course_class = ''9A'', frequency = 1\<rparr>])"
    by simp
  from empty_grid_run[OF e, of "[\<lparr>teacher_name = ''Ann''\<rparr>]"
      "[\<lparr>room_name = ''R1'', capacity = 30\<rparr>]" "[\<lparr>class_name = ''9A'', class_size = 25\<rparr>]"
      "[\<lparr>course_name = ''Math'', course_teacher = ''Ann'', course_class = ''9A'', frequency = 1\<rparr>]"
      "[]"] d
  show ?thesis
    by (simp add: course_key_def unscheduled_conflict_def frequency_conflict_def str_int_def
        str_nat.simps digit_char_def)
qed

section \<open>The commit and the day rule\<close>


lemma set_cell_cells:
  "cells (set_cell l n d t a) n' d' t' =
     (if n' = n \<and> d' = d \<and> t' = t then Some a else cells l n' d' t')"
  by (simp add: set_cell_def)

lemma try_time_slots_days:
  "try_time_slots gen c csize d ts ad s = Inr (ok, ad', s') \<Longrightarrow>
     ad' = (if ok then insert d ad else ad)"
proof (induction ts arbitrary: s)
  case Nil
  then show ?case by auto
next
  case (Cons t ts)
  from Cons.prems obtain room_opt g' where
    f: "find_available_room gen s csize d t = Inr (room_opt, g')"
    by (cases "find_available_room gen s csize d t") auto
  let ?s1 = "s\<lparr>rng := g'\<rparr>"
  show ?case
  proof (cases "room_opt = None \<or> room_opt = Some []")
    case True
    with Cons.prems f have "try_time_slots gen c csize d ts ad ?s1 = Inr (ok, ad', s')"
      by (auto simp: Let_def)
    from Cons.IH[OF this] show ?thesis .
  next
    case False
    then obtain rname where rn: "room_opt = Some rname" "rname \<noteq> []" by auto
    show ?thesis
    proof (cases "is_slot_available ?s1 (course_class c) (course_teacher c) rname d t")
      case (Inl e)
      with Cons.prems f rn show ?thesis by (simp add: Let_def)
    next
      case (Inr b)
      show ?thesis
      proof (cases b)
        case False
        with Inr Cons.prems f rn have "try_time_slots gen c csize d ts ad ?s1 = Inr (ok, ad', s')"
          by (simp add: Let_def)
        from Cons.IH[OF this] show ?thesis .
      next
        case True
        with Inr Cons.prems f rn show ?thesis
          by (auto simp: Let_def split: sum.splits)
      qed
    qed
  qed
qed

lemma search_day_days:
  assumes "search_day gen c csize d ad s = Inr (ok, ad', s')"
  shows "ad' = (if ok then insert d ad else ad)"
proof -
  obtain slots g' where sh: "shuffle (time_slots gen) (rng s) = (slots, g')"
    by (cases "shuffle (time_slots gen) (rng s)")
  with assms have "try_time_slots gen c csize d slots ad (s\<lparr>rng := g'\<rparr>) = Inr (ok, ad', s')"
    by (simp add: search_day_def)
  from try_time_slots_days[OF this] show ?thesis .
qed

lemma try_days_days:
  "try_days gen c csize ds ad s = Inr (ok, ad', s') \<Longrightarrow>
     (if ok then \<exists>d\<in>set ds. (d \<in> ad \<longrightarrow> \<not> card ad < length days) \<and> ad' = insert d ad
      else ad' = ad)"
proof (induction ds arbitrary: s)
  case Nil
  then show ?case by auto
next
  case (Cons d ds)
  show ?case
  proof (cases "d \<in> ad \<and> card ad < length days")
    case True
    with Cons.prems have "try_days gen c csize ds ad s = Inr (ok, ad', s')" by simp
    from Cons.IH[OF this] show ?thesis by (auto split: if_splits)
  next
    case False
    show ?thesis
    proof (cases "search_day gen c csize d ad s")
      case (Inl e)
      with False Cons.prems show ?thesis by auto
    next
      case (Inr res)
      obtain ok1 ad1 s1 where res: "res = (ok1, ad1, s1)" by (cases res)
      note t1 = search_day_days[OF Inr[unfolded res]]
      show ?thesis
      proof (cases ok1)
        case True
        with False Cons.prems Inr res have "ad' = ad1" "ok" by auto
        with t1 True False show ?thesis by auto
      next
        case F: False
        with t1 have ad1: "ad1 = ad" by simp
        from F False Cons.prems Inr res have "try_days gen c csize ds ad1 s1 = Inr (ok, ad', s')"
          by auto
        from Cons.IH[OF this[unfolded ad1]] show ?thesis by (auto split: if_splits)
      qed
    qed
  qed
qed

lemma schedule_sessions_run:
  "schedule_sessions gen c csize n ad s = map_sum id snd (sessions_run gen c csize n ad s)"
proof (induction n arbitrary: ad s)
  case 0
  then show ?case by simp
next
  case (Suc n)
  then show ?case by (auto split: prod.splits sum.splits)
qed

lemma sessions_run_add:
  "sessions_run gen c csize (m + k) ad s =
     (case sessions_run gen c csize m ad s of
        Inl e \<Rightarrow> Inl e
      | Inr (ad1, s1) \<Rightarrow> sessions_run gen c csize k ad1 s1)"
proof (induction m arbitrary: ad s)
  case 0
  then show ?case by simp
next
  case (Suc m)
  then show ?case by (auto split: prod.splits sum.splits)
qed

lemma course_days_cong:
  "class_schedule s' = class_schedule s \<Longrightarrow> course_days c s' = course_days c s"
  by (simp add: course_days_def)

lemma course_days_assign:
  assumes "assign_time_slot s c' (course_class c') tname rname d t = Inr s'"
    and "cells (class_schedule s) (course_class c') d t = None"
  shows "course_days c s' =
           (if course_key c' = course_key c then insert d (course_days c s) else course_days c s)"
proof -
  let ?a = "\<lparr>course = course_name c', teacher = tname, room = rname, cls = course_class c',
             day = d, time = t\<rparr>"
  have cell: "cells (class_schedule s') n d' t' =
      (if n = course_class c' \<and> d' = d \<and> t' = t then Some ?a
       else cells (class_schedule s) n d' t')" for n d' t'
    unfolding assign_time_slot_Inr[OF assms(1)] by (simp add: set_cell_def)
  show ?thesis
  proof (cases "course_key c' = course_key c")
    case True
    then have k: "course_class c' = course_class c" "course_name c' = course_name c"
      by (simp_all add: course_key_def)
    have "x \<in> course_days c s' \<longleftrightarrow> x = d \<or> x \<in> course_days c s" for x
    proof
      assume "x \<in> course_days c s'"
      then obtain t' a where "cells (class_schedule s') (course_class c) x t' = Some a"
        "course a = course_name c" by (auto simp: course_days_def)
      then show "x = d \<or> x \<in> course_days c s"
        by (auto simp: cell course_days_def split: if_splits)
    next
      assume "x = d \<or> x \<in> course_days c s"
      then show "x \<in> course_days c s'"
      proof
        assume "x = d"
        then have "cells (class_schedule s') (course_class c) x t = Some ?a" "course ?a = course_name c"
          using k by (simp_all add: cell)
        then show ?thesis unfolding course_days_def by blast
      next
        assume "x \<in> course_days c s"
        then obtain t' a where o: "cells (class_schedule s) (course_class c) x t' = Some a"
          "course a = course_name c" by (auto simp: course_days_def)
        with assms(2) k have "\<not> (x = d \<and> t' = t)" by auto
        with o have "cells (class_schedule s') (course_class c) x t' = Some a"
          by (auto simp: cell)
        with o(2) show ?thesis unfolding course_days_def by blast
      qed
    qed
    with True show ?thesis by auto
  next
    case False
    have "x \<in> course_days c s' \<longleftrightarrow> x \<in> course_days c s" for x
    proof
      assume "x \<in> course_days c s'"
      then obtain t' a where o: "cells (class_schedule s') (course_class c) x t' = Some a"
        "course a = course_name c" by (auto simp: course_days_def)
      with False have "cells (class_schedule s) (course_class c) x t' = Some a"
        by (auto simp: cell course_key_def split: if_splits)
      with o(2) show "x \<in> course_days c s" unfolding course_days_def by blast
    next
      assume "x \<in> course_days c s"
      then obtain t' a where o: "cells (class_schedule s) (course_class c) x t' = Some a"
        "course a = course_name c" by (auto simp: course_days_def)
      with assms(2) have "\<not> (course_class c = course_class c' \<and> x = d \<and> t' = t)" by auto
      with o have "cells (class_schedule s') (course_class c) x t' = Some a"
        by (auto simp: cell)
      with o(2) show "x \<in> course_days c s'" unfolding course_days_def by blast
    qed
    with False show ?thesis by auto
  qed
qed

lemma try_time_slots_course_days:
  "try_time_slots gen c' csize d ts ad s = Inr (ok, ad', s') \<Longrightarrow>
     course_days c s' =
       (if ok \<and> course_key c' = course_key c then insert d (course_days c s) else course_days c s)"
proof (induction ts arbitrary: s)
  case Nil
  then show ?case by auto
next
  case (Cons t ts)
  from Cons.prems obtain room_opt g' where
    f: "find_available_room gen s csize d t = Inr (room_opt, g')"
    by (cases "find_available_room gen s csize d t") auto
  let ?s1 = "s\<lparr>rng := g'\<rparr>"
  have cd: "course_days c ?s1 = course_days c s" by (simp add: course_days_def)
  show ?case
  proof (cases "room_opt = None \<or> room_opt = Some []")
    case True
    with Cons.prems f have "try_time_slots gen c' csize d ts ad ?s1 = Inr (ok, ad', s')"
      by (auto simp: Let_def)
    from Cons.IH[OF this] cd show ?thesis by simp
  next
    case False
    then obtain rname where rn: "room_opt = Some rname" "rname \<noteq> []" by auto
    show ?thesis
    proof (cases "is_slot_available ?s1 (course_class c') (course_teacher c') rname d t")
      case (Inl e)
      with Cons.prems f rn show ?thesis by (simp add: Let_def)
    next
      case (Inr b)
      show ?thesis
      proof (cases b)
        case False
        with Inr Cons.prems f rn have "try_time_slots gen c' csize d ts ad ?s1 = Inr (ok, ad', s')"
          by (simp add: Let_def)
        from Cons.IH[OF this] cd show ?thesis by simp
      next
        case True
        with Inr have av: "is_slot_available ?s1 (course_class c') (course_teacher c') rname d t = Inr True"
          by simp
        from is_slot_available_True[OF av]
        have free: "cells (class_schedule ?s1) (course_class c') d t = None" by simp
        from Cons.prems f rn av obtain s2 where
          a: "assign_time_slot ?s1 c' (course_class c') (course_teacher c') rname d t = Inr s2"
          and r: "ok" "s' = s2\<lparr>course_sessions := bump_sessions (course_key c') (course_sessions s2)\<rparr>"
          by (auto simp: Let_def split: sum.splits)
        have "course_days c s' = course_days c s2" by (simp add: r course_days_def)
        with course_days_assign[OF a free, of c] cd r(1) show ?thesis by simp
      qed
    qed
  qed
qed

lemma search_day_course_days:
  assumes "search_day gen c' csize d ad s = Inr (ok, ad', s')"
  shows "course_days c s' =
       (if ok \<and> course_key c' = course_key c then insert d (course_days c s) else course_days c s)"
proof -
  obtain slots g' where sh: "shuffle (time_slots gen) (rng s) = (slots, g')"
    by (cases "shuffle (time_slots gen) (rng s)")
  with assms have "try_time_slots gen c' csize d slots ad (s\<lparr>rng := g'\<rparr>) = Inr (ok, ad', s')"
    by (simp add: search_day_def)
  from try_time_slots_course_days[OF this, of c] show ?thesis by (simp add: course_days_def)
qed

lemma try_days_course_days:
  "try_days gen c csize ds ad s = Inr (ok, ad', s') \<Longrightarrow> ad = course_days c s \<Longrightarrow>
     ad' = course_days c s'"
proof (induction ds arbitrary: s)
  case Nil
  then show ?case by auto
next
  case (Cons d ds)
  show ?case
  proof (cases "d \<in> ad \<and> card ad < length days")
    case True
    with Cons.prems have "try_days gen c csize ds ad s = Inr (ok, ad', s')" by simp
    from Cons.IH[OF this Cons.prems(2)] show ?thesis .
  next
    case False
    show ?thesis
    proof (cases "search_day gen c csize d ad s")
      case (Inl e)
      with False Cons.prems show ?thesis by auto
    next
      case (Inr res)
      obtain ok1 ad1 s1 where res: "res = (ok1, ad1, s1)" by (cases res)
      note t1 = search_day_days[OF Inr[unfolded res]]
      note t2 = search_day_course_days[OF Inr[unfolded res], of c]
      show ?thesis
      proof (cases ok1)
        case True
        with False Cons.prems Inr res have "ad' = ad1" "s' = s1" by auto
        with t1 t2 True Cons.prems(2) show ?thesis by simp
      next
        case F: False
        with t1 have ad1: "ad1 = ad" by simp
        from F t2 Cons.prems(2) have e: "ad = course_days c s1" by simp
        from F False Cons.prems Inr res have "try_days gen c csize ds ad1 s1 = Inr (ok, ad', s')"
          by auto
        from Cons.IH[OF this[unfolded ad1] e] show ?thesis .
      qed
    qed
  qed
qed

lemma sessions_run_course_days:
  "sessions_run gen c csize n ad s = Inr (ad1, s1) \<Longrightarrow> ad = course_days c s \<Longrightarrow>
     ad1 = course_days c s1"
proof (induction n arbitrary: ad s)
  case 0
  then show ?case by auto
next
  case (Suc n)
  obtain ds g' where sh: "shuffle days (rng s) = (ds, g')" by (cases "shuffle days (rng s)")
  from Suc.prems(1) sh obtain ok ad' s' where
    t: "try_days gen c csize ds ad (s\<lparr>rng := g'\<rparr>) = Inr (ok, ad', s')"
    and r: "sessions_run gen c csize n ad'
              (if ok then s' else s'\<lparr>conflicts := conflicts s' @ [unscheduled_conflict c]\<rparr>) =
            Inr (ad1, s1)"
    by (auto split: sum.splits)
  have "ad = course_days c (s\<lparr>rng := g'\<rparr>)" using Suc.prems(2) by (simp add: course_days_def)
  from try_days_course_days[OF t this]
  have "ad' = course_days c
          (if ok then s' else s'\<lparr>conflicts := conflicts s' @ [unscheduled_conflict c]\<rparr>)"
    by (simp add: course_days_def)
  from Suc.IH[OF r this] show ?case .
qed

lemma sessions_run_mono:
  "sessions_run gen c csize n ad s = Inr (ad1, s1) \<Longrightarrow>
     ad \<subseteq> ad1 \<and> (ad \<subseteq> set days \<longrightarrow> ad1 \<subseteq> set days)"
proof (induction n arbitrary: ad s)
  case 0
  then show ?case by simp
next
  case (Suc n)
  obtain ds g' where sh: "shuffle days (rng s) = (ds, g')" by (cases "shuffle days (rng s)")
  from Suc.prems(1) sh obtain ok ad' s' where
    t: "try_days gen c csize ds ad (s\<lparr>rng := g'\<rparr>) = Inr (ok, ad', s')"
    and r: "sessions_run gen c csize n ad'
              (if ok then s' else s'\<lparr>conflicts := conflicts s' @ [unscheduled_conflict c]\<rparr>) =
            Inr (ad1, s1)"
    by (auto split: sum.splits)
  from try_days_days[OF t] shuffle_set[OF sh]
  have "ad \<subseteq> ad' \<and> (ad \<subseteq> set days \<longrightarrow> ad' \<subseteq> set days)"
    by (auto split: if_splits)
  with Suc.IH[OF r] show ?case by blast
qed

lemma try_days_filter:
  "card ad < length days \<Longrightarrow>
     try_days gen c csize ds ad s = try_days gen c csize (filter (\<lambda>d. d \<notin> ad) ds) ad s"
proof (induction ds arbitrary: s)
  case Nil
  then show ?case by simp
next
  case (Cons d ds)
  show ?case
  proof (cases "d \<in> ad")
    case True
    with Cons show ?thesis by simp
  next
    case False
    show ?thesis
    proof (cases "search_day gen c csize d ad s")
      case (Inl e)
      with False show ?thesis by simp
    next
      case (Inr res)
      obtain ok1 ad1 s1 where res: "res = (ok1, ad1, s1)" by (cases res)
      note t1 = search_day_days[OF Inr[unfolded res]]
      show ?thesis
      proof (cases ok1)
        case True
        with False Inr res show ?thesis by simp
      next
        case F: False
        with t1 have "ad1 = ad" by simp
        with F False Inr res Cons.IH[OF Cons.prems, of s1] show ?thesis by simp
      qed
    qed
  qed
qed

lemma try_time_slots_outcome:
  "outcome (try_time_slots gen c csize d ts ad s) = outcome (try_time_slots gen c csize d ts ad0 s)"
proof (induction ts arbitrary: s)
  case Nil
  then show ?case by (simp add: outcome_def)
next
  case (Cons t ts)
  then show ?case
    by (auto simp: outcome_def Let_def split: sum.splits option.splits bool.splits prod.splits)
qed

lemma search_day_outcome:
  "outcome (search_day gen c csize d ad s) = outcome (search_day gen c csize d ad0 s)"
  by (auto simp: search_day_def try_time_slots_outcome split: prod.splits)

lemma outcome_cases:
  assumes "outcome x = outcome y"
  shows "(\<exists>e. x = Inl e \<and> y = Inl e) \<or>
         (\<exists>ok ad1 ad2 s. x = Inr (ok, ad1, s) \<and> y = Inr (ok, ad2, s))"
  using assms by (cases x; cases y) (auto simp: outcome_def)

lemma try_days_outcome:
  "\<not> card ad < length days \<Longrightarrow>
     outcome (try_days gen c csize ds ad s) = outcome (try_days gen c csize ds {} s)"
proof (induction ds arbitrary: s)
  case Nil
  then show ?case by (simp add: outcome_def)
next
  case (Cons d ds)
  from outcome_cases[OF search_day_outcome[of gen c csize d ad s "{}"]]
  show ?case
  proof
    assume "\<exists>e. search_day gen c csize d ad s = Inl e \<and> search_day gen c csize d {} s = Inl e"
    with Cons.prems show ?thesis by (auto simp: outcome_def)
  next
    assume "\<exists>ok ad1 ad2 s1. search_day gen c csize d ad s = Inr (ok, ad1, s1) \<and>
              search_day gen c csize d {} s = Inr (ok, ad2, s1)"
    then obtain ok ad1 ad2 s1 where x: "search_day gen c csize d ad s = Inr (ok, ad1, s1)"
      and y: "search_day gen c csize d {} s = Inr (ok, ad2, s1)" by blast
    show ?thesis
    proof (cases ok)
      case True
      with x y Cons.prems show ?thesis by (simp add: outcome_def)
    next
      case False
      with search_day_days[OF x] search_day_days[OF y] have "ad1 = ad" "ad2 = {}" by simp_all
      with False x y Cons.prems Cons.IH[OF Cons.prems, of s1] show ?thesis by simp
    qed
  qed
qed


lemma try_days_other:
  "try_days gen c' csize ds ad s = Inr (ok, ad', s') \<Longrightarrow> course_key c' \<noteq> course_key c \<Longrightarrow>
     course_days c s' = course_days c s"
proof (induction ds arbitrary: s ad)
  case Nil
  then show ?case by auto
next
  case (Cons d ds)
  show ?case
  proof (cases "d \<in> ad \<and> card ad < length days")
    case True
    with Cons.prems have "try_days gen c' csize ds ad s = Inr (ok, ad', s')" by simp
    from Cons.IH[OF this Cons.prems(2)] show ?thesis .
  next
    case False
    show ?thesis
    proof (cases "search_day gen c' csize d ad s")
      case (Inl e)
      with False Cons.prems show ?thesis by auto
    next
      case (Inr res)
      obtain ok1 ad1 s1 where res: "res = (ok1, ad1, s1)" by (cases res)
      from search_day_course_days[OF Inr[unfolded res], of c] Cons.prems(2)
      have t2: "course_days c s1 = course_days c s" by simp
      show ?thesis
      proof (cases ok1)
        case True
        with False Cons.prems Inr res have "s' = s1" by auto
        with t2 show ?thesis by simp
      next
        case F: False
        from F False Cons.prems Inr res have "try_days gen c' csize ds ad1 s1 = Inr (ok, ad', s')"
          by auto
        from Cons.IH[OF this Cons.prems(2)] t2 show ?thesis by simp
      qed
    qed
  qed
qed

lemma sessions_run_other:
  "sessions_run gen c' csize n ad s = Inr (ad1, s1) \<Longrightarrow> course_key c' \<noteq> course_key c \<Longrightarrow>
     course_days c s1 = course_days c s"
proof (induction n arbitrary: ad s)
  case 0
  then show ?case by auto
next
  case (Suc n)
  obtain ds g' where sh: "shuffle days (rng s) = (ds, g')" by (cases "shuffle days (rng s)")
  from Suc.prems(1) sh obtain ok ad' s' where
    t: "try_days gen c' csize ds ad (s\<lparr>rng := g'\<rparr>) = Inr (ok, ad', s')"
    and r: "sessions_run gen c' csize n ad'
              (if ok then s' else s'\<lparr>conflicts := conflicts s' @ [unscheduled_conflict c']\<rparr>) =
            Inr (ad1, s1)"
    by (auto split: sum.splits)
  from try_days_other[OF t Suc.prems(2)]
  have "course_days c
          (if ok then s' else s'\<lparr>conflicts := conflicts s' @ [unscheduled_conflict c']\<rparr>) =
        course_days c s"
    by (simp add: course_days_def)
  with Suc.IH[OF r Suc.prems(2)] show ?case by simp
qed

lemma schedule_courses_other:
  "schedule_courses gen cs s = Inr s' \<Longrightarrow> course_key c \<notin> course_key ` set cs \<Longrightarrow>
     course_days c s' = course_days c s"
proof (induction cs arbitrary: s)
  case Nil
  then show ?case by simp
next
  case (Cons c' cs)
  from Cons.prems(1) obtain s1 where
    1: "schedule_course gen c' s = Inr s1" and 2: "schedule_courses gen cs s1 = Inr s'"
    by (auto split: sum.splits)
  from 1 obtain ad1 where
    "sessions_run gen c' (get_class_size (classes gen) (course_class c')) (frequency c') {} s =
       Inr (ad1, s1)"
    by (cases "sessions_run gen c' (get_class_size (classes gen) (course_class c')) (frequency c') {} s")
       (auto simp: schedule_course_def schedule_sessions_run)
  from sessions_run_other[OF this, of c] Cons.prems(2)
  have "course_days c s1 = course_days c s" by auto
  with Cons.IH[OF 2] Cons.prems(2) show ?case by simp
qed

text \<open>
  In a run over courses with pairwise different (name, class) keys, the session loop of
  each course starts in a state in which the course uses no day.
\<close>

lemma course_loop_starts_unused:
  assumes "distinct (map course_key (courses gen))"
    and "sorted_courses gen = pre @ c # post"
    and "schedule_courses gen pre
           ((initial_state gen g)\<lparr>conflicts := [],
              course_sessions := map (\<lambda>k. (k, 0)) (dict_keys (map course_key (courses gen)))\<rparr>) =
         Inr s"
  shows "course_days c s = {}"
proof -
  from sorted_courses_distinct[OF assms(1)] assms(2)
  have "course_key c \<notin> course_key ` set pre" by auto
  from schedule_courses_other[OF assms(3) this] show ?thesis
    by (simp add: course_days_def initial_state_def new_ledger_def)
qed

text \<open>
  C5. Take the session loop of a course that starts with no day used, after any number
  \<open>m\<close> of its sessions, holding the set \<open>ad\<close> in \<open>assigned_days\<close>; let \<open>ds\<close> be the
  shuffled weekdays of the next session. Then the next session of the loop is the day
  search over \<open>ds\<close> with \<open>ad\<close>, and \<open>ad\<close> is the set of days the course already
  uses in the ledger. While fewer than five days are used, the search behaves as on
  \<open>ds\<close> with the used days removed: every used candidate is skipped. Once five are
  used, the search has the outcome it has with no day used: no candidate is skipped,
  used days are searched like any other. The set of used days never shrinks during the
  loop, so once five are used this holds at every later session of the loop.
\<close>

theorem used_day_skipped_iff_not_exhausted:
  assumes "course_days c s = {}"
    and "sessions_run gen c csize m {} s = Inr (ad, s1)"
    and "shuffle days (rng s1) = (ds, g')"
  shows "schedule_sessions gen c csize (m + Suc k) {} s =
           (case try_days gen c csize ds ad (s1\<lparr>rng := g'\<rparr>) of
              Inl e \<Rightarrow> Inl e
            | Inr (session_scheduled, ad', s') \<Rightarrow>
                schedule_sessions gen c csize k ad'
                  (if session_scheduled then s'
                   else s'\<lparr>conflicts := conflicts s' @ [unscheduled_conflict c]\<rparr>)) \<and>
         ad = course_days c s1 \<and> ad \<subseteq> set days \<and>
         (card ad < 5 \<longrightarrow>
            try_days gen c csize ds ad (s1\<lparr>rng := g'\<rparr>) =
              try_days gen c csize (filter (\<lambda>d. d \<notin> ad) ds) ad (s1\<lparr>rng := g'\<rparr>)) \<and>
         (\<not> card ad < 5 \<longrightarrow>
            outcome (try_days gen c csize ds ad (s1\<lparr>rng := g'\<rparr>)) =
              outcome (try_days gen c csize ds {} (s1\<lparr>rng := g'\<rparr>))) \<and>
         (\<forall>j ad2 s2. sessions_run gen c csize (m + j) {} s = Inr (ad2, s2) \<longrightarrow>
            ad \<subseteq> ad2 \<and> ad2 \<subseteq> set days \<and> (\<not> card ad < 5 \<longrightarrow> \<not> card ad2 < 5))"
proof (intro conjI allI impI)
  have "schedule_sessions gen c csize (m + Suc k) {} s =
          map_sum id snd (sessions_run gen c csize (Suc k) ad s1)"
    by (simp only: schedule_sessions_run sessions_run_add assms(2)) simp
  also have "\<dots> = schedule_sessions gen c csize (Suc k) ad s1"
    by (simp only: schedule_sessions_run)
  finally show "schedule_sessions gen c csize (m + Suc k) {} s =
           (case try_days gen c csize ds ad (s1\<lparr>rng := g'\<rparr>) of
              Inl e \<Rightarrow> Inl e
            | Inr (session_scheduled, ad', s') \<Rightarrow>
                schedule_sessions gen c csize k ad'
                  (if session_scheduled then s'
                   else s'\<lparr>conflicts := conflicts s' @ [unscheduled_conflict c]\<rparr>))"
    using assms(3) by simp
next
  from sessions_run_course_days[OF assms(2)] assms(1) show "ad = course_days c s1" by simp
next
  from sessions_run_mono[OF assms(2)] show "ad \<subseteq> set days" by simp
next
  assume "card ad < 5"
  then have "card ad < length days" by (simp add: days_def)
  from try_days_filter[OF this]
  show "try_days gen c csize ds ad (s1\<lparr>rng := g'\<rparr>) =
          try_days gen c csize (filter (\<lambda>d. d \<notin> ad) ds) ad (s1\<lparr>rng := g'\<rparr>)" .
next
  assume "\<not> card ad < 5"
  then have "\<not> card ad < length days" by (simp add: days_def)
  from try_days_outcome[OF this]
  show "outcome (try_days gen c csize ds ad (s1\<lparr>rng := g'\<rparr>)) =
          outcome (try_days gen c csize ds {} (s1\<lparr>rng := g'\<rparr>))" .
next
  fix j ad2 s2
  assume "sessions_run gen c csize (m + j) {} s = Inr (ad2, s2)"
  then have r: "sessions_run gen c csize j ad s1 = Inr (ad2, s2)"
    by (simp add: sessions_run_add assms(2))
  from sessions_run_mono[OF assms(2)] have a: "ad \<subseteq> set days" by simp
  from sessions_run_mono[OF r] a have b: "ad \<subseteq> ad2" "ad2 \<subseteq> set days" by simp_all
  show "ad \<subseteq> ad2" by fact
  show "ad2 \<subseteq> set days" by fact
  from b(2) have "finite ad2" by (rule finite_subset) simp
  from card_mono[OF this b(1)] show "\<not> card ad2 < 5" if "\<not> card ad < 5" using that by simp
qed

theorem used_day_skipped_iff_not_exhausted_witness:
  "(\<exists>ad s1 ds g'.
      sessions_run
        \<lparr>teachers = [\<lparr>teacher_name = ''Ann''\<rparr>], rooms = [\<lparr>room_name = ''R1'', capacity = 30\<rparr>],
      classes = [\<lparr>class_name = ''9A'', class_size = 25\<rparr>],
      courses = [\<lparr>course_name = ''Math'', course_teacher = ''Ann'', course_class = ''9A'',
                  frequency = 6\<rparr>],
      time_slots = [''08:00-08:50'', ''09:00-09:50'']\<rparr>
        \<lparr>course_name = ''Math'', course_teacher = ''Ann'', course_class = ''9A'', frequency = 6\<rparr> 25 5 {} ((initial_state
      \<lparr>teachers = [\<lparr>teacher_name = ''Ann''\<rparr>], rooms = [\<lparr>room_name = ''R1'', capacity = 30\<rparr>],
      classes = [\<lparr>class_name = ''9A'', class_size = 25\<rparr>],
      courses = [\<lparr>course_name = ''Math'', course_teacher = ''Ann'', course_class = ''9A'',
                  frequency = 6\<rparr>],
      time_slots = [''08:00-08:50'', ''09:00-09:50'']\<rparr> [])\<lparr>conflicts := [], course_sessions := [((''Math'', ''9A''), 0)]\<rparr>) = Inr (ad, s1) \<and>
      shuffle days (rng s1) = (ds, g') \<and>
      ad = set days \<and>
      course_days \<lparr>course_name = ''Math'', course_teacher = ''Ann'', course_class = ''9A'', frequency = 6\<rparr> s1 = set days \<and>
      outcome (try_days
        \<lparr>teachers = [\<lparr>teacher_name = ''Ann''\<rparr>], rooms = [\<lparr>room_name = ''R1'', capacity = 30\<rparr>],
      classes = [\<lparr>class_name = ''9A'', class_size = 25\<rparr>],
      courses = [\<lparr>course_name = ''Math'', course_teacher = ''Ann'', course_class = ''9A'',
                  frequency = 6\<rparr>],
      time_slots = [''08:00-08:50'', ''09:00-09:50'']\<rparr>
        \<lparr>course_name = ''Math'', course_teacher = ''Ann'', course_class = ''9A'', frequency = 6\<rparr> 25 ds ad (s1\<lparr>rng := g'\<rparr>)) =
      outcome (try_days
        \<lparr>teachers = [\<lparr>teacher_name = ''Ann''\<rparr>], rooms = [\<lparr>room_name = ''R1'', capacity = 30\<rparr>],
      classes = [\<lparr>class_name = ''9A'', class_size = 25\<rparr>],
      courses = [\<lparr>course_name = ''Math'', course_teacher = ''Ann'', course_class = ''9A'',
                  frequency = 6\<rparr>],
      time_slots = [''08:00-08:50'', ''09:00-09:50'']\<rparr>
        \<lparr>course_name = ''Math'', course_teacher = ''Ann'', course_class = ''9A'', frequency = 6\<rparr> 25 ds {} (s1\<lparr>rng := g'\<rparr>))) \<and>
   (\<exists>ad s1 ds g'.
      sessions_run
        \<lparr>teachers = [\<lparr>teacher_name = ''Ann''\<rparr>], rooms = [\<lparr>room_name = ''R1'', capacity = 30\<rparr>],
      classes = [\<lparr>class_name = ''9A'', class_size = 25\<rparr>],
      courses = [\<lparr>course_name = ''Math'', course_teacher = ''Ann'', course_class = ''9A'',
                  frequency = 6\<rparr>],
      time_slots = [''08:00-08:50'', ''09:00-09:50'']\<rparr>
        \<lparr>course_name = ''Math'', course_teacher = ''Ann'', course_class = ''9A'', frequency = 6\<rparr> 25 2 {} ((initial_state
      \<lparr>teachers = [\<lparr>teacher_name = ''Ann''\<rparr>], rooms = [\<lparr>room_name = ''R1'', capacity = 30\<rparr>],
      classes = [\<lparr>class_name = ''9A'', class_size = 25\<rparr>],
      courses = [\<lparr>course_name = ''Math'', course_teacher = ''Ann'', course_class = ''9A'',
                  frequency = 6\<rparr>],
      time_slots = [''08:00-08:50'', ''09:00-09:50'']\<rparr> [])\<lparr>conflicts := [], course_sessions := [((''Math'', ''9A''), 0)]\<rparr>) = Inr (ad, s1) \<and>
      shuffle days (rng s1) = (ds, g') \<and>
      card ad = 2 \<and>
      ad = course_days \<lparr>course_name = ''Math'', course_teacher = ''Ann'', course_class = ''9A'', frequency = 6\<rparr> s1 \<and>
      try_days
        \<lparr>teachers = [\<lparr>teacher_name = ''Ann''\<rparr>], rooms = [\<lparr>room_name = ''R1'', capacity = 30\<rparr>],
      classes = [\<lparr>class_name = ''9A'', class_size = 25\<rparr>],
      courses = [\<lparr>course_name = ''Math'', course_teacher = ''Ann'', course_class = ''9A'',
                  frequency = 6\<rparr>],
      time_slots = [''08:00-08:50'', ''09:00-09:50'']\<rparr>
        \<lparr>course_name = ''Math'', course_teacher = ''Ann'', course_class = ''9A'', frequency = 6\<rparr> 25 ds ad (s1\<lparr>rng := g'\<rparr>) =
      try_days
        \<lparr>teachers = [\<lparr>teacher_name = ''Ann''\<rparr>], rooms = [\<lparr>room_name = ''R1'', capacity = 30\<rparr>],
      classes = [\<lparr>class_name = ''9A'', class_size = 25\<rparr>],
      courses = [\<lparr>course_name = ''Math'', course_teacher = ''Ann'', course_class = ''9A'',
                  frequency = 6\<rparr>],
      time_slots = [''08:00-08:50'', ''09:00-09:50'']\<rparr>
        \<lparr>course_name = ''Math'', course_teacher = ''Ann'', course_class = ''9A'', frequency = 6\<rparr> 25 (filter (\<lambda>d. d \<notin> ad) ds) ad (s1\<lparr>rng := g'\<rparr>)) \<and>
   map_sum id (\<lambda>(schedule, cfl). (length schedule, cfl))
     (generate_schedule
        \<lparr>teachers = [\<lparr>teacher_name = ''Ann''\<rparr>], rooms = [\<lparr>room_name = ''R1'', capacity = 30\<rparr>],
      classes = [\<lparr>class_name = ''9A'', class_size = 25\<rparr>],
      courses = [\<lparr>course_name = ''Math'', course_teacher = ''Ann'', course_class = ''9A'',
                  frequency = 6\<rparr>],
      time_slots = [''08:00-08:50'', ''09:00-09:50'']\<rparr>
        (initial_state
          \<lparr>teachers = [\<lparr>teacher_name = ''Ann''\<rparr>], rooms = [\<lparr>room_name = ''R1'', capacity = 30\<rparr>],
      classes = [\<lparr>class_name = ''9A'', class_size = 25\<rparr>],
      courses = [\<lparr>course_name = ''Math'', course_teacher = ''Ann'', course_class = ''9A'',
                  frequency = 6\<rparr>],
      time_slots = [''08:00-08:50'', ''09:00-09:50'']\<rparr> [])) = Inr (6, [])"
proof -
  have 0: "course_days \<lparr>course_name = ''Math'', course_teacher = ''Ann'', course_class = ''9A'', frequency = 6\<rparr> ((initial_state
      \<lparr>teachers = [\<lparr>teacher_name = ''Ann''\<rparr>], rooms = [\<lparr>room_name = ''R1'', capacity = 30\<rparr>],
      classes = [\<lparr>class_name = ''9A'', class_size = 25\<rparr>],
      courses = [\<lparr>course_name = ''Math'', course_teacher = ''Ann'', course_class = ''9A'',
                  frequency = 6\<rparr>],
      time_slots = [''08:00-08:50'', ''09:00-09:50'']\<rparr> [])\<lparr>conflicts := [], course_sessions := [((''Math'', ''9A''), 0)]\<rparr>) = {}"
    by (simp add: course_days_def initial_state_def new_ledger_def)
  have "case sessions_run
        \<lparr>teachers = [\<lparr>teacher_name = ''Ann''\<rparr>], rooms = [\<lparr>room_name = ''R1'', capacity = 30\<rparr>],
      classes = [\<lparr>class_name = ''9A'', class_size = 25\<rparr>],
      courses = [\<lparr>course_name = ''Math'', course_teacher = ''Ann'', course_class = ''9A'',
                  frequency = 6\<rparr>],
      time_slots = [''08:00-08:50'', ''09:00-09:50'']\<rparr>
        \<lparr>course_name = ''Math'', course_teacher = ''Ann'', course_class = ''9A'', frequency = 6\<rparr> 25 5 {} ((initial_state
      \<lparr>teachers = [\<lparr>teacher_name = ''Ann''\<rparr>], rooms = [\<lparr>room_name = ''R1'', capacity = 30\<rparr>],
      classes = [\<lparr>class_name = ''9A'', class_size = 25\<rparr>],
      courses = [\<lparr>course_name = ''Math'', course_teacher = ''Ann'', course_class = ''9A'',
                  frequency = 6\<rparr>],
      time_slots = [''08:00-08:50'', ''09:00-09:50'']\<rparr> [])\<lparr>conflicts := [], course_sessions := [((''Math'', ''9A''), 0)]\<rparr>) of Inl e \<Rightarrow> False | Inr (ad, s1) \<Rightarrow> ad = set days"
    by code_simp
  then obtain ad s1 where 1: "sessions_run
        \<lparr>teachers = [\<lparr>teacher_name = ''Ann''\<rparr>], rooms = [\<lparr>room_name = ''R1'', capacity = 30\<rparr>],
      classes = [\<lparr>class_name = ''9A'', class_size = 25\<rparr>],
      courses = [\<lparr>course_name = ''Math'', course_teacher = ''Ann'', course_class = ''9A'',
                  frequency = 6\<rparr>],
      time_slots = [''08:00-08:50'', ''09:00-09:50'']\<rparr>
        \<lparr>course_name = ''Math'', course_teacher = ''Ann'', course_class = ''9A'', frequency = 6\<rparr> 25 5 {} ((initial_state
      \<lparr>teachers = [\<lparr>teacher_name = ''Ann''\<rparr>], rooms = [\<lparr>room_name = ''R1'', capacity = 30\<rparr>],
      classes = [\<lparr>class_name = ''9A'', class_size = 25\<rparr>],
      courses = [\<lparr>course_name = ''Math'', course_teacher = ''Ann'', course_class = ''9A'',
                  frequency = 6\<rparr>],
      time_slots = [''08:00-08:50'', ''09:00-09:50'']\<rparr> [])\<lparr>conflicts := [], course_sessions := [((''Math'', ''9A''), 0)]\<rparr>) = Inr (ad, s1)" and ad: "ad = set days"
    by (auto split: sum.splits)
  obtain ds g' where 2: "shuffle days (rng s1) = (ds, g')" by (cases "shuffle days (rng s1)")
  have c: "\<not> card ad < 5" by (simp add: ad days_def)
  note t = used_day_skipped_iff_not_exhausted[OF 0 1 2, of 0]
  from t c have A: "course_days \<lparr>course_name = ''Math'', course_teacher = ''Ann'', course_class = ''9A'', frequency = 6\<rparr> s1 = set days"
    "outcome (try_days
        \<lparr>teachers = [\<lparr>teacher_name = ''Ann''\<rparr>], rooms = [\<lparr>room_name = ''R1'', capacity = 30\<rparr>],
      classes = [\<lparr>class_name = ''9A'', class_size = 25\<rparr>],
      courses = [\<lparr>course_name = ''Math'', course_teacher = ''Ann'', course_class = ''9A'',
                  frequency = 6\<rparr>],
      time_slots = [''08:00-08:50'', ''09:00-09:50'']\<rparr>
        \<lparr>course_name = ''Math'', course_teacher = ''Ann'', course_class = ''9A'', frequency = 6\<rparr> 25 ds ad (s1\<lparr>rng := g'\<rparr>)) =
      outcome (try_days
        \<lparr>teachers = [\<lparr>teacher_name = ''Ann''\<rparr>], rooms = [\<lparr>room_name = ''R1'', capacity = 30\<rparr>],
      classes = [\<lparr>class_name = ''9A'', class_size = 25\<rparr>],
      courses = [\<lparr>course_name = ''Math'', course_teacher = ''Ann'', course_class = ''9A'',
                  frequency = 6\<rparr>],
      time_slots = [''08:00-08:50'', ''09:00-09:50'']\<rparr>
        \<lparr>course_name = ''Math'', course_teacher = ''Ann'', course_class = ''9A'', frequency = 6\<rparr> 25 ds {} (s1\<lparr>rng := g'\<rparr>))"
    using ad by blast+
  have "case sessions_run
        \<lparr>teachers = [\<lparr>teacher_name = ''Ann''\<rparr>], rooms = [\<lparr>room_name = ''R1'', capacity = 30\<rparr>],
      classes = [\<lparr>class_name = ''9A'', class_size = 25\<rparr>],
      courses = [\<lparr>course_name = ''Math'', course_teacher = ''Ann'', course_class = ''9A'',
                  frequency = 6\<rparr>],
      time_slots = [''08:00-08:50'', ''09:00-09:50'']\<rparr>
        \<lparr>course_name = ''Math'', course_teacher = ''Ann'', course_class = ''9A'', frequency = 6\<rparr> 25 2 {} ((initial_state
      \<lparr>teachers = [\<lparr>teacher_name = ''Ann''\<rparr>], rooms = [\<lparr>room_name = ''R1'', capacity = 30\<rparr>],
      classes = [\<lparr>class_name = ''9A'', class_size = 25\<rparr>],
      courses = [\<lparr>course_name = ''Math'', course_teacher = ''Ann'', course_class = ''9A'',
                  frequency = 6\<rparr>],
      time_slots = [''08:00-08:50'', ''09:00-09:50'']\<rparr> [])\<lparr>conflicts := [], course_sessions := [((''Math'', ''9A''), 0)]\<rparr>) of Inl e \<Rightarrow> False | Inr (ad, s1) \<Rightarrow> card ad = 2"
    by code_simp
  then obtain bd s2 where 3: "sessions_run
        \<lparr>teachers = [\<lparr>teacher_name = ''Ann''\<rparr>], rooms = [\<lparr>room_name = ''R1'', capacity = 30\<rparr>],
      classes = [\<lparr>class_name = ''9A'', class_size = 25\<rparr>],
      courses = [\<lparr>course_name = ''Math'', course_teacher = ''Ann'', course_class = ''9A'',
                  frequency = 6\<rparr>],
      time_slots = [''08:00-08:50'', ''09:00-09:50'']\<rparr>
        \<lparr>course_name = ''Math'', course_teacher = ''Ann'', course_class = ''9A'', frequency = 6\<rparr> 25 2 {} ((initial_state
      \<lparr>teachers = [\<lparr>teacher_name = ''Ann''\<rparr>], rooms = [\<lparr>room_name = ''R1'', capacity = 30\<rparr>],
      classes = [\<lparr>class_name = ''9A'', class_size = 25\<rparr>],
      courses = [\<lparr>course_name = ''Math'', course_teacher = ''Ann'', course_class = ''9A'',
                  frequency = 6\<rparr>],
      time_slots = [''08:00-08:50'', ''09:00-09:50'']\<rparr> [])\<lparr>conflicts := [], course_sessions := [((''Math'', ''9A''), 0)]\<rparr>) = Inr (bd, s2)" and bd: "card bd = 2"
    by (auto split: sum.splits)
  obtain es h' where 4: "shuffle days (rng s2) = (es, h')" by (cases "shuffle days (rng s2)")
  have d: "card bd < 5" by (simp add: bd)
  note u = used_day_skipped_iff_not_exhausted[OF 0 3 4, of 0]
  from u d have B: "bd = course_days \<lparr>course_name = ''Math'', course_teacher = ''Ann'', course_class = ''9A'', frequency = 6\<rparr> s2"
    "try_days
        \<lparr>teachers = [\<lparr>teacher_name = ''Ann''\<rparr>], rooms = [\<lparr>room_name = ''R1'', capacity = 30\<rparr>],
      classes = [\<lparr>class_name = ''9A'', class_size = 25\<rparr>],
      courses = [\<lparr>course_name = ''Math'', course_teacher = ''Ann'', course_class = ''9A'',
                  frequency = 6\<rparr>],
      time_slots = [''08:00-08:50'', ''09:00-09:50'']\<rparr>
        \<lparr>course_name = ''Math'', course_teacher = ''Ann'', course_class = ''9A'', frequency = 6\<rparr> 25 es bd (s2\<lparr>rng := h'\<rparr>) =
      try_days
        \<lparr>teachers = [\<lparr>teacher_name = ''Ann''\<rparr>], rooms = [\<lparr>room_name = ''R1'', capacity = 30\<rparr>],
      classes = [\<lparr>class_name = ''9A'', class_size = 25\<rparr>],
      courses = [\<lparr>course_name = ''Math'', course_teacher = ''Ann'', course_class = ''9A'',
                  frequency = 6\<rparr>],
      time_slots = [''08:00-08:50'', ''09:00-09:50'']\<rparr>
        \<lparr>course_name = ''Math'', course_teacher = ''Ann'', course_class = ''9A'', frequency = 6\<rparr> 25 (filter (\<lambda>d. d \<notin> bd) es) bd (s2\<lparr>rng := h'\<rparr>)"
    by blast+
  have C: "map_sum id (\<lambda>(schedule, cfl). (length schedule, cfl))
     (generate_schedule
        \<lparr>teachers = [\<lparr>teacher_name = ''Ann''\<rparr>], rooms = [\<lparr>room_name = ''R1'', capacity = 30\<rparr>],
      classes = [\<lparr>class_name = ''9A'', class_size = 25\<rparr>],
      courses = [\<lparr>course_name = ''Math'', course_teacher = ''Ann'', course_class = ''9A'',
                  frequency = 6\<rparr>],
      time_slots = [''08:00-08:50'', ''09:00-09:50'']\<rparr>
        (initial_state
          \<lparr>teachers = [\<lparr>teacher_name = ''Ann''\<rparr>], rooms = [\<lparr>room_name = ''R1'', capacity = 30\<rparr>],
      classes = [\<lparr>class_name = ''9A'', class_size = 25\<rparr>],
      courses = [\<lparr>course_name = ''Math'', course_teacher = ''Ann'', course_class = ''9A'',
                  frequency = 6\<rparr>],
      time_slots = [''08:00-08:50'', ''09:00-09:50'']\<rparr> [])) = Inr (6, [])"
    by code_simp
  from 1 2 ad A have P: "\<exists>ad s1 ds g'.
      sessions_run
        \<lparr>teachers = [\<lparr>teacher_name = ''Ann''\<rparr>], rooms = [\<lparr>room_name = ''R1'', capacity = 30\<rparr>],
      classes = [\<lparr>class_name = ''9A'', class_size = 25\<rparr>],
      courses = [\<lparr>course_name = ''Math'', course_teacher = ''Ann'', course_class = ''9A'',
                  frequency = 6\<rparr>],
      time_slots = [''08:00-08:50'', ''09:00-09:50'']\<rparr>
        \<lparr>course_name = ''Math'', course_teacher = ''Ann'', course_class = ''9A'', frequency = 6\<rparr> 25 5 {} ((initial_state
      \<lparr>teachers = [\<lparr>teacher_name = ''Ann''\<rparr>], rooms = [\<lparr>room_name = ''R1'', capacity = 30\<rparr>],
      classes = [\<lparr>class_name = ''9A'', class_size = 25\<rparr>],
      courses = [\<lparr>course_name = ''Math'', course_teacher = ''Ann'', course_class = ''9A'',
                  frequency = 6\<rparr>],
      time_slots = [''08:00-08:50'', ''09:00-09:50'']\<rparr> [])\<lparr>conflicts := [], course_sessions := [((''Math'', ''9A''), 0)]\<rparr>) = Inr (ad, s1) \<and>
      shuffle days (rng s1) = (ds, g') \<and>
      ad = set days \<and>
      course_days \<lparr>course_name = ''Math'', course_teacher = ''Ann'', course_class = ''9A'', frequency = 6\<rparr> s1 = set days \<and>
      outcome (try_days
        \<lparr>teachers = [\<lparr>teacher_name = ''Ann''\<rparr>], rooms = [\<lparr>room_name = ''R1'', capacity = 30\<rparr>],
      classes = [\<lparr>class_name = ''9A'', class_size = 25\<rparr>],
      courses = [\<lparr>course_name = ''Math'', course_teacher = ''Ann'', course_class = ''9A'',
                  frequency = 6\<rparr>],
      time_slots = [''08:00-08:50'', ''09:00-09:50'']\<rparr>
        \<lparr>course_name = ''Math'', course_teacher = ''Ann'', course_class = ''9A'', frequency = 6\<rparr> 25 ds ad (s1\<lparr>rng := g'\<rparr>)) =
      outcome (try_days
        \<lparr>teachers = [\<lparr>teacher_name = ''Ann''\<rparr>], rooms = [\<lparr>room_name = ''R1'', capacity = 30\<rparr>],
      classes = [\<lparr>class_name = ''9A'', class_size = 25\<rparr>],
      courses = [\<lparr>course_name = ''Math'', course_teacher = ''Ann'', course_class = ''9A'',
                  frequency = 6\<rparr>],
      time_slots = [''08:00-08:50'', ''09:00-09:50'']\<rparr>
        \<lparr>course_name = ''Math'', course_teacher = ''Ann'', course_class = ''9A'', frequency = 6\<rparr> 25 ds {} (s1\<lparr>rng := g'\<rparr>))"
    by (intro exI conjI)
  from 3 4 bd B have Q: "\<exists>ad s1 ds g'.
      sessions_run
        \<lparr>teachers = [\<lparr>teacher_name = ''Ann''\<rparr>], rooms = [\<lparr>room_name = ''R1'', capacity = 30\<rparr>],
      classes = [\<lparr>class_name = ''9A'', class_size = 25\<rparr>],
      courses = [\<lparr>course_name = ''Math'', course_teacher = ''Ann'', course_class = ''9A'',
                  frequency = 6\<rparr>],
      time_slots = [''08:00-08:50'', ''09:00-09:50'']\<rparr>
        \<lparr>course_name = ''Math'', course_teacher = ''Ann'', course_class = ''9A'', frequency = 6\<rparr> 25 2 {} ((initial_state
      \<lparr>teachers = [\<lparr>teacher_name = ''Ann''\<rparr>], rooms = [\<lparr>room_name = ''R1'', capacity = 30\<rparr>],
      classes = [\<lparr>class_name = ''9A'', class_size = 25\<rparr>],
      courses = [\<lparr>course_name = ''Math'', course_teacher = ''Ann'', course_class = ''9A'',
                  frequency = 6\<rparr>],
      time_slots = [''08:00-08:50'', ''09:00-09:50'']\<rparr> [])\<lparr>conflicts := [], course_sessions := [((''Math'', ''9A''), 0)]\<rparr>) = Inr (ad, s1) \<and>
      shuffle days (rng s1) = (ds, g') \<and>
      card ad = 2 \<and>
      ad = course_days \<lparr>course_name = ''Math'', course_teacher = ''Ann'', course_class = ''9A'', frequency = 6\<rparr> s1 \<and>
      try_days
        \<lparr>teachers = [\<lparr>teacher_name = ''Ann''\<rparr>], rooms = [\<lparr>room_name = ''R1'', capacity = 30\<rparr>],
      classes = [\<lparr>class_name = ''9A'', class_size = 25\<rparr>],
      courses = [\<lparr>course_name = ''Math'', course_teacher = ''Ann'', course_class = ''9A'',
                  frequency = 6\<rparr>],
      time_slots = [''08:00-08:50'', ''09:00-09:50'']\<rparr>
        \<lparr>course_name = ''Math'', course_teacher = ''Ann'', course_class = ''9A'', frequency = 6\<rparr> 25 ds ad (s1\<lparr>rng := g'\<rparr>) =
      try_days
        \<lparr>teachers = [\<lparr>teacher_name = ''Ann''\<rparr>], rooms = [\<lparr>room_name = ''R1'', capacity = 30\<rparr>],
      classes = [\<lparr>class_name = ''9A'', class_size = 25\<rparr>],
      courses = [\<lparr>course_name = ''Math'', course_teacher = ''Ann'', course_class = ''9A'',
                  frequency = 6\<rparr>],
      time_slots = [''08:00-08:50'', ''09:00-09:50'']\<rparr>
        \<lparr>course_name = ''Math'', course_teacher = ''Ann'', course_class = ''9A'', frequency = 6\<rparr> 25 (filter (\<lambda>d. d \<notin> ad) ds) ad (s1\<lparr>rng := g'\<rparr>)"
    by (intro exI conjI)
  from P Q C show ?thesis by (intro conjI)
qed


section \<open>Slot labels are pairwise different\<close>

lemma digit_char_code: "d < 10 \<Longrightarrow> (of_char (digit_char d) :: nat) = 48 + d"
proof -
  assume "d < 10"
  then have "d = 0 \<or> d = 1 \<or> d = 2 \<or> d = 3 \<or> d = 4 \<or> d = 5 \<or> d = 6 \<or> d = 7 \<or> d = 8 \<or> d = 9"
    by arith
  then show ?thesis by (elim disjE) (simp_all add: digit_char_def)
qed

lemma digit_char_inj:
  assumes "a < 10" "b < 10" "digit_char a = digit_char b"
  shows "a = b"
proof -
  have "48 + a = (of_char (digit_char a) :: nat)" using assms(1) by (simp only: digit_char_code)
  also have "\<dots> = of_char (digit_char b)" by (simp only: assms(3))
  also have "\<dots> = 48 + b" using assms(2) by (simp only: digit_char_code)
  finally show ?thesis by simp
qed

lemma fmt_02d_two_digits:
  assumes "0 \<le> i" "i < 100"
  shows "fmt_02d i = [digit_char (nat i div 10), digit_char (nat i mod 10)]"
proof (cases "i < 10")
  case True
  with assms have "str_int i = [digit_char (nat i)]"
    by (simp add: str_int_def str_nat.simps)
  moreover have "digit_char 0 = CHR ''0''" by (simp add: digit_char_def)
  ultimately show ?thesis using True assms by (simp add: fmt_02d_def)
next
  case False
  with assms have n: "\<not> nat i < 10" "nat i div 10 < 10" by auto
  then have "str_nat (nat i) = [digit_char (nat i div 10), digit_char (nat i mod 10)]"
    by (subst str_nat.simps) (simp add: str_nat.simps[of "nat i div 10"])
  with assms show ?thesis by (simp add: fmt_02d_def str_int_def)
qed

lemma fmt_02d_inj:
  assumes "0 \<le> i" "i < 100" "0 \<le> j" "j < 100" "fmt_02d i = fmt_02d j"
  shows "i = j"
proof -
  from assms have "digit_char (nat i div 10) = digit_char (nat j div 10)"
    "digit_char (nat i mod 10) = digit_char (nat j mod 10)"
    by (simp_all add: fmt_02d_two_digits)
  moreover from assms have "nat i div 10 < 10" "nat j div 10 < 10" by auto
  ultimately have "nat i div 10 = nat j div 10" "nat i mod 10 = nat j mod 10"
    by (auto intro: digit_char_inj)
  then have "nat i = nat j" by (metis div_mult_mod_eq)
  with assms show ?thesis by simp
qed

lemma slot_label_start_inj:
  assumes "0 \<le> fst a" "fst a < 1440" "0 \<le> fst b" "fst b < 1440"
    and "slot_label a = slot_label b"
  shows "fst a = fst b"
proof -
  have parts: "take 2 (slot_label x) = fmt_02d (fst x div 60) \<and>
      take 2 (drop 3 (slot_label x)) = fmt_02d (fst x mod 60)"
    if "0 \<le> fst x" "fst x < 1440" for x :: slot
  proof -
    from that have "0 \<le> fst x div 60" "fst x div 60 < 100" "0 \<le> fst x mod 60" "fst x mod 60 < 100"
      by auto
    then have "length (fmt_02d (fst x div 60)) = 2" "length (fmt_02d (fst x mod 60)) = 2"
      by (simp_all add: fmt_02d_two_digits)
    then show ?thesis by (simp add: slot_label_def Let_def)
  qed
  from parts[OF assms(1,2)] parts[OF assms(3,4)] assms(5) have
    "fmt_02d (fst a div 60) = fmt_02d (fst b div 60)"
    "fmt_02d (fst a mod 60) = fmt_02d (fst b mod 60)" by simp_all
  moreover from assms have "0 \<le> fst a div 60" "fst a div 60 < 100" "0 \<le> fst a mod 60"
    "fst a mod 60 < 100" "0 \<le> fst b div 60" "fst b div 60 < 100" "0 \<le> fst b mod 60"
    "fst b mod 60 < 100" by auto
  ultimately have "fst a div 60 = fst b div 60" "fst a mod 60 = fst b mod 60"
    by (auto intro: fmt_02d_inj)
  then show ?thesis by (metis div_mult_mod_eq)
qed

lemma distinct_map_transfer:
  assumes "distinct (map f xs)" and "\<And>a b. a \<in> set xs \<Longrightarrow> b \<in> set xs \<Longrightarrow> g a = g b \<Longrightarrow> f a = f b"
  shows "distinct (map g xs)"
  using assms
proof (induction xs)
  case Nil
  then show ?case by simp
next
  case (Cons x xs)
  have "g x \<notin> g ` set xs"
  proof
    assume "g x \<in> g ` set xs"
    then obtain y where y: "y \<in> set xs" "g x = g y" by auto
    with Cons.prems(2)[of x y] have "f x = f y" by simp
    with y(1) Cons.prems(1) show False by auto
  qed
  moreover have "distinct (map g xs)" using Cons.prems by (intro Cons.IH) auto
  ultimately show ?case by simp
qed

lemma strict_starts_distinct:
  "sorted_wrt (\<lambda>a b. fst a < fst b) (ys :: slot list) \<Longrightarrow> distinct (map fst ys)"
  by (induction ys) auto

lemma valid_time_bounds: "valid_time t \<Longrightarrow> 0 \<le> minutes_of t \<and> minutes_of t < 1440"
  by (auto simp: valid_time_def minutes_of_def)

lemma time_slots_distinct:
  assumes v: "valid_grid opts" and g: "generate_time_slots opts = Some labels"
  shows "distinct labels"
proof -
  from generate_slots_valid[OF v] obtain slots where
    s: "generate_slots opts = Some slots" "chain opts (minutes_of (start_time opts)) 1 slots"
       "\<forall>sl\<in>set slots. snd sl \<le> minutes_of (end_time opts)"
    by blast
  from v have p: "0 < period_length opts" by (simp add: valid_grid_def)
  from chain_bounds[OF s(2) p gap_nonneg[OF v]] have
    b: "\<forall>sl\<in>set slots. snd sl = fst sl + period_length opts \<and> minutes_of (start_time opts) \<le> fst sl"
       "sorted_wrt (\<lambda>a b. snd a \<le> fst b) slots" by auto
  from b(1) p have lt: "\<forall>sl\<in>set slots. fst sl < snd sl" by auto
  from sorted_wrt_starts[OF b(2) lt] have d: "distinct (map fst slots)"
    by (rule strict_starts_distinct)
  from v have "0 \<le> minutes_of (start_time opts)" "minutes_of (end_time opts) < 1440"
    using valid_time_bounds by (auto simp: valid_grid_def)
  with b(1) lt s(3) have r: "0 \<le> fst sl \<and> fst sl < 1440" if "sl \<in> set slots" for sl
    using that by fastforce
  have "distinct (map slot_label slots)"
    by (rule distinct_map_transfer[OF d]) (use r slot_label_start_inj in blast)
  with g s(1) show ?thesis by (auto simp: generate_time_slots_def)
qed

section \<open>One course with the week to itself\<close>

lemma week_inv_rng [simp]: "week_inv gen c rname ad (s\<lparr>rng := g\<rparr>) = week_inv gen c rname ad s"
  by (simp add: week_inv_def)

lemma week_inv_finite: "week_inv gen c rname ad s \<Longrightarrow> finite ad"
  by (auto simp: week_inv_def intro: finite_subset)

lemma find_single_room:
  assumes "rooms gen = [r]" "csize \<le> capacity r"
    "cells (room_schedule s) (room_name r) d t = None"
    "room_name r \<in> set (keys (room_schedule s))" "d \<in> set days"
    "t \<in> slot_keys (room_schedule s) (room_name r) d"
  shows "find_available_room gen s csize d t = Inr (Some (room_name r), rng s)"
  using assms by (simp add: find_available_room_def shuffle_single lookup_cell_present)

lemma search_day_fresh:
  assumes rm: "rooms gen = [r]" "room_name r = rname" "rname \<noteq> []" "csize \<le> capacity r"
    and ts: "time_slots gen \<noteq> []"
    and inv: "week_inv gen c rname ad s"
    and fresh: "d \<notin> ad" "d \<in> set days"
  shows "\<exists>s'. search_day gen c csize d ad s = Inr (True, insert d ad, s') \<and>
           week_inv gen c rname (insert d ad) s'"
proof -
  obtain slots g' where sh: "shuffle (time_slots gen) (rng s) = (slots, g')"
    by (cases "shuffle (time_slots gen) (rng s)")
  from shuffle_length[OF sh] ts obtain t0 rest where sl: "slots = t0 # rest"
    by (cases slots) auto
  from shuffle_set[OF sh] sl have t0: "t0 \<in> set (time_slots gen)" by auto
  let ?s1 = "s\<lparr>rng := g'\<rparr>"
  let ?a = "session_of c rname d t0"
  from inv obtain f where
    sub: "ad \<subseteq> set days" and
    k: "keys (class_schedule s) = [course_class c]" "keys (teacher_schedule s) = [course_teacher c]"
       "keys (room_schedule s) = [rname]" and
    cs: "course_sessions s = [(course_key c, int (card ad))]" and
    cf: "conflicts s = []" and
    f: "\<forall>d\<in>ad. f d \<in> set (time_slots gen)" and
    cc: "\<And>n d t. cells (class_schedule s) n d t =
              (if n = course_class c \<and> d \<in> ad \<and> t = f d
               then Some (session_of c rname d t) else None)" and
    free: "\<And>n d t. d \<notin> ad \<Longrightarrow>
         cells (teacher_schedule s) n d t = None \<and> cells (room_schedule s) n d t = None" and
    sk: "\<And>n d. set (time_slots gen) \<subseteq> slot_keys (class_schedule s) n d \<and>
         set (time_slots gen) \<subseteq> slot_keys (teacher_schedule s) n d \<and>
         set (time_slots gen) \<subseteq> slot_keys (room_schedule s) n d"
    unfolding week_inv_def by blast
  have fin: "finite ad" using sub by (auto intro: finite_subset)
  from sk t0 have t0k: "t0 \<in> slot_keys (class_schedule s) (course_class c) d"
    "t0 \<in> slot_keys (teacher_schedule s) (course_teacher c) d"
    "t0 \<in> slot_keys (room_schedule s) rname d" by blast+
  have fr: "find_available_room gen ?s1 csize d t0 = Inr (Some rname, g')"
    using find_single_room[of gen r csize ?s1 d t0] rm free[OF fresh(1)] k(3) fresh(2) t0k(3)
    by simp
  have av: "is_slot_available ?s1 (course_class c) (course_teacher c) rname d t0 = Inr True"
    using k free[OF fresh(1)] cc[of "course_class c" d t0] fresh t0k
    by (simp add: is_slot_available_def lookup_cell_present)
  let ?s2 = "?s1\<lparr>class_schedule := set_cell (class_schedule ?s1) (course_class c) d t0 ?a,
                  teacher_schedule := set_cell (teacher_schedule ?s1) (course_teacher c) d t0 ?a,
                  room_schedule := set_cell (room_schedule ?s1) rname d t0 ?a\<rparr>"
  have asg: "assign_time_slot ?s1 c (course_class c) (course_teacher c) rname d t0 = Inr ?s2"
    using k fresh(2) by (simp add: assign_time_slot_def store_cell_def Let_def session_of_def)
  let ?s3 = "?s2\<lparr>course_sessions := bump_sessions (course_key c) (course_sessions ?s2)\<rparr>"
  have res: "search_day gen c csize d ad s = Inr (True, insert d ad, ?s3)"
    unfolding search_day_def sh sl
    by (simp add: fr av asg rm(3) Let_def)
  have "week_inv gen c rname (insert d ad) ?s3"
    unfolding week_inv_def
  proof (intro conjI)
    show "insert d ad \<subseteq> set days" using sub fresh(2) by simp
    show "keys (class_schedule ?s3) = [course_class c]" using k by (simp add: set_cell_def)
    show "keys (teacher_schedule ?s3) = [course_teacher c]" using k by (simp add: set_cell_def)
    show "keys (room_schedule ?s3) = [rname]" using k by (simp add: set_cell_def)
    show "course_sessions ?s3 = [(course_key c, int (card (insert d ad)))]"
      using cs fin fresh(1) by (simp add: bump_sessions_def)
    show "conflicts ?s3 = []" using cf by simp
    show "\<exists>f. (\<forall>d\<in>insert d ad. f d \<in> set (time_slots gen)) \<and>
           (\<forall>n d' t. cells (class_schedule ?s3) n d' t =
              (if n = course_class c \<and> d' \<in> insert d ad \<and> t = f d'
               then Some (session_of c rname d' t) else None))"
    proof (intro exI[of _ "f(d := t0)"] conjI allI)
      show "\<forall>d'\<in>insert d ad. (f(d := t0)) d' \<in> set (time_slots gen)"
        using f t0 by simp
    next
      fix n d' t
      show "cells (class_schedule ?s3) n d' t =
              (if n = course_class c \<and> d' \<in> insert d ad \<and> t = (f(d := t0)) d'
               then Some (session_of c rname d' t) else None)"
        using fresh(1) by (auto simp: set_cell_cells cc)
    qed
    show "\<forall>n d' t. d' \<notin> insert d ad \<longrightarrow>
         cells (teacher_schedule ?s3) n d' t = None \<and> cells (room_schedule ?s3) n d' t = None"
      using free by (simp add: set_cell_cells)
    show "\<forall>n d'. set (time_slots gen) \<subseteq> slot_keys (class_schedule ?s3) n d' \<and>
         set (time_slots gen) \<subseteq> slot_keys (teacher_schedule ?s3) n d' \<and>
         set (time_slots gen) \<subseteq> slot_keys (room_schedule ?s3) n d'"
    proof -
      have "\<And>n d x. x \<in> set (time_slots gen) \<Longrightarrow> x \<in> slot_keys (class_schedule s) n d"
        "\<And>n d x. x \<in> set (time_slots gen) \<Longrightarrow> x \<in> slot_keys (teacher_schedule s) n d"
        "\<And>n d x. x \<in> set (time_slots gen) \<Longrightarrow> x \<in> slot_keys (room_schedule s) n d"
        using sk by blast+
      then show ?thesis by (auto simp: set_cell_def)
    qed
  qed
  with res show ?thesis by blast
qed

lemma try_days_fresh:
  assumes rm: "rooms gen = [r]" "room_name r = rname" "rname \<noteq> []" "csize \<le> capacity r"
    and ts: "time_slots gen \<noteq> []"
    and inv: "week_inv gen c rname ad s"
    and few: "card ad < 5"
  shows "set ds \<subseteq> set days \<Longrightarrow> \<exists>d\<in>set ds. d \<notin> ad \<Longrightarrow>
           \<exists>d s'. d \<notin> ad \<and> try_days gen c csize ds ad s = Inr (True, insert d ad, s') \<and>
                  week_inv gen c rname (insert d ad) s'"
proof (induction ds)
  case Nil
  then show ?case by simp
next
  case (Cons d0 ds)
  show ?case
  proof (cases "d0 \<in> ad")
    case True
    with few have sk: "try_days gen c csize (d0 # ds) ad s = try_days gen c csize ds ad s"
      by (simp add: days_def)
    from True Cons.prems have "set ds \<subseteq> set days" "\<exists>d\<in>set ds. d \<notin> ad" by auto
    from Cons.IH[OF this] sk show ?thesis by simp
  next
    case False
    from Cons.prems(1) have "d0 \<in> set days" by simp
    from search_day_fresh[OF rm ts inv False this] obtain s' where
      "search_day gen c csize d0 ad s = Inr (True, insert d0 ad, s')"
      "week_inv gen c rname (insert d0 ad) s'" by blast
    with False show ?thesis by (intro exI[of _ d0] exI[of _ s']) simp
  qed
qed

lemma schedule_sessions_week:
  assumes rm: "rooms gen = [r]" "room_name r = rname" "rname \<noteq> []" "csize \<le> capacity r"
    and ts: "time_slots gen \<noteq> []"
  shows "week_inv gen c rname ad s \<Longrightarrow> card ad + n \<le> 5 \<Longrightarrow>
           \<exists>ad' s'. schedule_sessions gen c csize n ad s = Inr s' \<and>
                    week_inv gen c rname ad' s' \<and> card ad' = card ad + n"
proof (induction n arbitrary: ad s)
  case 0
  then show ?case by auto
next
  case (Suc n)
  obtain ds g' where sh: "shuffle days (rng s) = (ds, g')" by (cases "shuffle days (rng s)")
  from shuffle_set[OF sh] have sd: "set ds = set days" .
  from Suc.prems(2) have few: "card ad < 5" by simp
  from Suc.prems(1) have sub: "ad \<subseteq> set days" and fin: "finite ad"
    by (auto simp: week_inv_def intro: finite_subset)
  have "card (set days) = 5" by (simp add: days_def)
  with few sub have "\<not> set days \<subseteq> ad" by auto
  with sd have ex: "\<exists>d\<in>set ds. d \<notin> ad" by auto
  have inv1: "week_inv gen c rname ad (s\<lparr>rng := g'\<rparr>)" using Suc.prems(1) by simp
  from try_days_fresh[OF rm ts inv1 few _ ex] sd obtain d s1 where
    d: "d \<notin> ad" and
    td: "try_days gen c csize ds ad (s\<lparr>rng := g'\<rparr>) = Inr (True, insert d ad, s1)" and
    inv2: "week_inv gen c rname (insert d ad) s1" by auto
  from d fin Suc.prems(2) have "card (insert d ad) + n \<le> 5" by simp
  from Suc.IH[OF inv2 this] obtain ad' s' where
    r: "schedule_sessions gen c csize n (insert d ad) s1 = Inr s'"
       "week_inv gen c rname ad' s'" "card ad' = card (insert d ad) + n" by blast
  from r(1) sh td have "schedule_sessions gen c csize (Suc n) ad s = Inr s'" by simp
  moreover from r(3) d fin have "card ad' = card ad + Suc n" by simp
  ultimately show ?case using r(2) by blast
qed

lemma concat_map_pick:
  "distinct xs \<Longrightarrow> x \<in> set xs \<Longrightarrow>
     concat (map (\<lambda>t. if t = x then [h t] else []) xs) = [h x]"
proof (induction xs)
  case Nil
  then show ?case by simp
next
  case (Cons y ys)
  show ?case
  proof (cases "y = x")
    case True
    with Cons.prems have "x \<notin> set ys" by simp
    then have "map (\<lambda>t. if t = x then [h t] else []) ys = map (\<lambda>t. []) ys" by auto
    with True show ?thesis by (simp add: concat_map_Nil)
  next
    case False
    with Cons show ?thesis by simp
  qed
qed

lemma concat_map_singletons: "concat (map (\<lambda>x. [h x]) xs) = map h xs"
  by (induction xs) simp_all

lemma week_full_results:
  assumes inv: "week_inv gen c rname (set days) s"
    and ds: "distinct (time_slots gen)"
    and cr: "courses gen = [c]" "frequency c = 5"
  shows "\<exists>f. (\<forall>d\<in>set days. f d \<in> set (time_slots gen)) \<and>
           collect_schedule gen s = map (\<lambda>d. session_of c rname d (f d)) days \<and>
           conflicts s = [] \<and> teacher_conflicts gen s = [] \<and> room_conflicts gen s = [] \<and>
           frequency_conflicts gen s = [] \<and> course_sessions s = [(course_key c, 5)]"
proof -
  from inv obtain f where
    k: "keys (class_schedule s) = [course_class c]" and
    cs: "course_sessions s = [(course_key c, int (card (set days)))]" and
    cf: "conflicts s = []" and
    f: "\<forall>d\<in>set days. f d \<in> set (time_slots gen)" and
    cc: "\<And>n d t. cells (class_schedule s) n d t =
              (if n = course_class c \<and> d \<in> set days \<and> t = f d
               then Some (session_of c rname d t) else None)"
    unfolding week_inv_def by blast
  have five: "card (set days) = 5" by (simp add: days_def)
  have day: "concat (map (\<lambda>t. case cells (class_schedule s) (course_class c) d t of
                 None \<Rightarrow> [] | Some a \<Rightarrow> [a]) (time_slots gen)) = [session_of c rname d (f d)]"
    if "d \<in> set days" for d
  proof -
    have "(\<lambda>t. case cells (class_schedule s) (course_class c) d t of
                 None \<Rightarrow> [] | Some a \<Rightarrow> [a]) =
          (\<lambda>t. if t = f d then [session_of c rname d t] else [])"
      using that by (auto simp: cc)
    with concat_map_pick[OF ds, of "f d" "session_of c rname d"] f that show ?thesis by simp
  qed
  have "collect_schedule gen s =
      concat (map (\<lambda>d. concat (map (\<lambda>t. case cells (class_schedule s) (course_class c) d t of
                 None \<Rightarrow> [] | Some a \<Rightarrow> [a]) (time_slots gen))) days)"
    by (simp add: collect_schedule_def k)
  also have "\<dots> = concat (map (\<lambda>d. [session_of c rname d (f d)]) days)"
    using day by (simp cong: map_cong)
  also have "\<dots> = map (\<lambda>d. session_of c rname d (f d)) days"
    by (rule concat_map_singletons)
  finally have 1: "collect_schedule gen s = map (\<lambda>d. session_of c rname d (f d)) days" .
  have le: "length (classes_at_time s fld nm d t) \<le> 1" for fld nm d t
    by (simp add: classes_at_time_def k)
  have 2: "teacher_conflicts gen s = []"
    using le[of teacher]
    by (simp add: teacher_conflicts_def Let_def not_less[symmetric] del: not_less)
  have 3: "room_conflicts gen s = []"
    using le[of room]
    by (simp add: room_conflicts_def Let_def not_less[symmetric] del: not_less)
  have 4: "frequency_conflicts gen s = []"
    by (simp add: frequency_conflicts_def cs cr five course_key_def Let_def)
  from 1 2 3 4 f cf cs five show ?thesis by auto
qed

lemma single_course_run:
  assumes ts: "slots \<noteq> []" "distinct slots"
    and cap: "class_size k \<le> capacity r"
    and fr: "frequency c = 5"
    and refs: "course_class c = class_name k" "course_teacher c = teacher_name t"
    and rn: "room_name r \<noteq> []"
  shows "\<exists>f. (\<forall>d\<in>set days. f d \<in> set slots) \<and>
     run_schedule
       \<lparr>teachers = [t], rooms = [r], classes = [k], courses = [c], time_slots = slots\<rparr>
       (initial_state
         \<lparr>teachers = [t], rooms = [r], classes = [k], courses = [c], time_slots = slots\<rparr> g) =
     Inr (map (\<lambda>d. session_of c (room_name r) d (f d)) days, [], [(course_key c, 5)])"
proof -
  let ?gen = "\<lparr>teachers = [t], rooms = [r], classes = [k], courses = [c], time_slots = slots\<rparr>"
  let ?s1 = "(initial_state ?gen g)\<lparr>conflicts := [],
      course_sessions := map (\<lambda>k. (k, 0)) (dict_keys (map course_key (courses ?gen)))\<rparr>"
  have inv0: "week_inv ?gen c (room_name r) {} ?s1"
    by (simp add: week_inv_def initial_state_def new_ledger_def refs)
  have sz: "get_class_size (classes ?gen) (course_class c) = class_size k"
    by (simp add: refs)
  from schedule_sessions_week[of ?gen r "room_name r" "class_size k" c "{}" ?s1 5]
    inv0 rn cap ts(1)
  obtain ad' s' where
    r: "schedule_sessions ?gen c (class_size k) 5 {} ?s1 = Inr s'"
       "week_inv ?gen c (room_name r) ad' s'" "card ad' = 5" by auto
  from r(2) have "ad' \<subseteq> set days" by (simp add: week_inv_def)
  moreover have "card (set days) = 5" by (simp add: days_def)
  ultimately have "ad' = set days" using r(3) by (intro card_subset_eq) simp_all
  with r(2) have inv: "week_inv ?gen c (room_name r) (set days) s'" by simp
  from week_full_results[OF inv] ts(2) fr obtain f where
    f: "\<forall>d\<in>set days. f d \<in> set slots" and
    res: "collect_schedule ?gen s' = map (\<lambda>d. session_of c (room_name r) d (f d)) days"
      "conflicts s' = []" "teacher_conflicts ?gen s' = []" "room_conflicts ?gen s' = []"
      "frequency_conflicts ?gen s' = []" "course_sessions s' = [(course_key c, 5)]"
    by auto
  have "schedule_courses ?gen (sorted_courses ?gen) ?s1 = Inr s'"
    using r(1) by (simp add: sorted_courses_def schedule_course_def refs fr)
  then have "run_schedule ?gen (initial_state ?gen g) =
      Inr (map (\<lambda>d. session_of c (room_name r) d (f d)) days, [], [(course_key c, 5)])"
    by (simp add: run_schedule_def Let_def res)
  with f show ?thesis by blast
qed

text \<open>
  C4. One teacher, one room of capacity 30 with a proper (non-empty) name, one class
  of size 25 and one course of that class and teacher with frequency 5, on a valid
  grid with at least one slot per day (five are more than the argument needs): for
  every sequence of random draws the run tallies 5 sessions, returns no conflict
  record and exactly 5 assignments, one on each of the five weekdays.
\<close>

theorem single_course_one_per_weekday:
  assumes grid: "valid_grid opts" "generate_time_slots opts = Some slots" "slots \<noteq> []"
    and sizes: "capacity r = 30" "class_size k = 25" "frequency c = 5"
    and refs: "course_class c = class_name k" "course_teacher c = teacher_name t"
    and rn: "room_name r \<noteq> []"
  shows "\<exists>schedule.
     schedule_once [t] [r] [k] [c] opts g = Some (Inr (schedule, [])) \<and>
     run_schedule
       \<lparr>teachers = [t], rooms = [r], classes = [k], courses = [c], time_slots = slots\<rparr>
       (initial_state
         \<lparr>teachers = [t], rooms = [r], classes = [k], courses = [c], time_slots = slots\<rparr> g) =
       Inr (schedule, [], [(course_key c, 5)]) \<and>
     length schedule = 5 \<and>
     map day schedule = [''Monday'', ''Tuesday'', ''Wednesday'', ''Thursday'', ''Friday''] \<and>
     distinct (map day schedule)"
proof -
  let ?gen = "\<lparr>teachers = [t], rooms = [r], classes = [k], courses = [c], time_slots = slots\<rparr>"
  from sizes have cap: "class_size k \<le> capacity r" by simp
  from single_course_run[OF grid(3) time_slots_distinct[OF grid(1,2)] cap sizes(3) refs rn, of g]
  obtain f where
    run: "run_schedule ?gen (initial_state ?gen g) =
      Inr (map (\<lambda>d. session_of c (room_name r) d (f d)) days, [], [(course_key c, 5)])"
    by blast
  let ?schedule = "map (\<lambda>d. session_of c (room_name r) d (f d)) days"
  have "schedule_once [t] [r] [k] [c] opts g = Some (Inr (?schedule, []))"
    using run by (simp add: schedule_once_def make_generator_def grid(2) generate_schedule_def)
  moreover have "map day ?schedule = days"
    by (simp add: session_of_def comp_def)
  moreover have "length ?schedule = 5" "distinct days" by (simp_all add: days_def)
  ultimately show ?thesis using run by (auto simp: days_def)
qed

theorem single_course_one_per_weekday_witness:
  "valid_grid \<lparr>start_time = \<lparr>hour = 8, minute = 0\<rparr>,
      end_time = \<lparr>hour = 15, minute = 15\<rparr>, period_length = 50, break_length = 10,
      lunch_period = ''After period 3'', lunch_duration = 30\<rparr> \<and>
   generate_time_slots \<lparr>start_time = \<lparr>hour = 8, minute = 0\<rparr>,
      end_time = \<lparr>hour = 15, minute = 15\<rparr>, period_length = 50, break_length = 10,
      lunch_period = ''After period 3'', lunch_duration = 30\<rparr> =
     Some [''08:00-08:50'', ''09:00-09:50'', ''10:00-10:50'', ''11:20-12:10'',
      ''12:20-13:10'', ''13:20-14:10'', ''14:20-15:10''] \<and>
   (\<exists>schedule.
      schedule_once [\<lparr>teacher_name = ''Ann''\<rparr>] [\<lparr>room_name = ''R1'', capacity = 30\<rparr>]
        [\<lparr>class_name = ''9A'', class_size = 25\<rparr>]
        [\<lparr>course_name = ''Math'', course_teacher = ''Ann'', course_class = ''9A'', frequency = 5\<rparr>]
        \<lparr>start_time = \<lparr>hour = 8, minute = 0\<rparr>,
      end_time = \<lparr>hour = 15, minute = 15\<rparr>, period_length = 50, break_length = 10,
      lunch_period = ''After period 3'', lunch_duration = 30\<rparr> [3, 1, 4, 1, 5, 9, 2, 6] = Some (Inr (schedule, [])) \<and>
      length schedule = 5 \<and>
      map day schedule = [''Monday'', ''Tuesday'', ''Wednesday'', ''Thursday'', ''Friday''])"
proof -
  have v: "valid_grid \<lparr>start_time = \<lparr>hour = 8, minute = 0\<rparr>,
      end_time = \<lparr>hour = 15, minute = 15\<rparr>, period_length = 50, break_length = 10,
      lunch_period = ''After period 3'', lunch_duration = 30\<rparr>"
    by (simp add: valid_grid_def valid_time_def minutes_of_def)
  have g: "generate_time_slots \<lparr>start_time = \<lparr>hour = 8, minute = 0\<rparr>,
      end_time = \<lparr>hour = 15, minute = 15\<rparr>, period_length = 50, break_length = 10,
      lunch_period = ''After period 3'', lunch_duration = 30\<rparr> =
     Some [''08:00-08:50'', ''09:00-09:50'', ''10:00-10:50'', ''11:20-12:10'',
      ''12:20-13:10'', ''13:20-14:10'', ''14:20-15:10'']"
    by code_simp
  have n: "[''08:00-08:50'', ''09:00-09:50'', ''10:00-10:50'', ''11:20-12:10'',
      ''12:20-13:10'', ''13:20-14:10'', ''14:20-15:10''] \<noteq> []"
    by simp
  have sizes: "capacity \<lparr>room_name = ''R1'', capacity = 30\<rparr> = 30"
    "class_size \<lparr>class_name = ''9A'', class_size = 25\<rparr> = 25"
    "frequency \<lparr>course_name = ''Math'', course_teacher = ''Ann'', course_class = ''9A'', frequency = 5\<rparr> = 5"
    by simp_all
  have refs: "course_class \<lparr>course_name = ''Math'', course_teacher = ''Ann'', course_class = ''9A'', frequency = 5\<rparr> =
      class_name \<lparr>class_name = ''9A'', class_size = 25\<rparr>"
    "course_teacher \<lparr>course_name = ''Math'', course_teacher = ''Ann'', course_class = ''9A'', frequency = 5\<rparr> =
      teacher_name \<lparr>teacher_name = ''Ann''\<rparr>"
    by simp_all
  have rn: "room_name \<lparr>room_name = ''R1'', capacity = 30\<rparr> \<noteq> []" by simp
  note w = single_course_one_per_weekday[OF v g n sizes refs rn, of "[3, 1, 4, 1, 5, 9, 2, 6]"]
  show ?thesis
  proof (intro conjI)
    show "valid_grid \<lparr>start_time = \<lparr>hour = 8, minute = 0\<rparr>,
      end_time = \<lparr>hour = 15, minute = 15\<rparr>, period_length = 50, break_length = 10,
      lunch_period = ''After period 3'', lunch_duration = 30\<rparr>" by (rule v)
  next
    show "generate_time_slots \<lparr>start_time = \<lparr>hour = 8, minute = 0\<rparr>,
      end_time = \<lparr>hour = 15, minute = 15\<rparr>, period_length = 50, break_length = 10,
      lunch_period = ''After period 3'', lunch_duration = 30\<rparr> =
     Some [''08:00-08:50'', ''09:00-09:50'', ''10:00-10:50'', ''11:20-12:10'',
      ''12:20-13:10'', ''13:20-14:10'', ''14:20-15:10'']" by (rule g)
  next
    from w obtain schedule where
      "schedule_once [\<lparr>teacher_name = ''Ann''\<rparr>] [\<lparr>room_name = ''R1'', capacity = 30\<rparr>]
        [\<lparr>class_name = ''9A'', class_size = 25\<rparr>]
        [\<lparr>course_name = ''Math'', course_teacher = ''Ann'', course_class = ''9A'', frequency = 5\<rparr>]
        \<lparr>start_time = \<lparr>hour = 8, minute = 0\<rparr>,
      end_time = \<lparr>hour = 15, minute = 15\<rparr>, period_length = 50, break_length = 10,
      lunch_period = ''After period 3'', lunch_duration = 30\<rparr> [3, 1, 4, 1, 5, 9, 2, 6] =
        Some (Inr (schedule, []))"
      "length schedule = 5"
      "map day schedule = [''Monday'', ''Tuesday'', ''Wednesday'', ''Thursday'', ''Friday'']"
      by (elim exE conjE)
    then show "\<exists>schedule.
      schedule_once [\<lparr>teacher_name = ''Ann''\<rparr>] [\<lparr>room_name = ''R1'', capacity = 30\<rparr>]
        [\<lparr>class_name = ''9A'', class_size = 25\<rparr>]
        [\<lparr>course_name = ''Math'', course_teacher = ''Ann'', course_class = ''9A'', frequency = 5\<rparr>]
        \<lparr>start_time = \<lparr>hour = 8, minute = 0\<rparr>,
      end_time = \<lparr>hour = 15, minute = 15\<rparr>, period_length = 50, break_length = 10,
      lunch_period = ''After period 3'', lunch_duration = 30\<rparr> [3, 1, 4, 1, 5, 9, 2, 6] =
        Some (Inr (schedule, [])) \<and>
      length schedule = 5 \<and>
      map day schedule = [''Monday'', ''Tuesday'', ''Wednesday'', ''Thursday'', ''Friday'']"
      by (intro exI[of _ schedule] conjI)
  qed
qed

section \<open>No stored assignment is overwritten\<close>

lemma ledgers_kept_refl [simp]: "ledgers_kept s s"
  by (simp add: ledgers_kept_def)











end
